theory Spec2Isabelle
  imports Main "HOL-Library.Word"
begin

section \<open>Values, tables and the Lua state\<close>

text \<open>
  The binding in \<^verbatim>\<open>engine.c\<close> works on a \<^verbatim>\<open>lua_State\<close> through the Lua C API
  and calls the Unicorn library. The state below holds what those calls read and
  write: the stack, the full-userdata blocks, the tables, the registry, the answers
  of the Unicorn library and a log of the calls made to it and to the hook manager.
  A native pointer is a number, \<open>0\<close> being \<^verbatim>\<open>NULL\<close>.
\<close>

type_synonym addr = nat

datatype lua_value =
    LNil
  | LInteger int
  | LLightUserdata addr
  | LUserdata nat
  | LTable nat

text \<open>
  A table is the list of its nodes in the order \<^verbatim>\<open>lua_next\<close> walks them. A node whose
  value is \<open>LNil\<close> is a cleared entry: it keeps its place, which is what lets a
  traversal go on after the entry it stands on was cleared.
\<close>

type_synonym lua_table = "(lua_value \<times> lua_value) list"

record UCLuaEngine =
  engine :: addr
  hook_table_ref :: int

datatype memory = EngineMem UCLuaEngine | ContextMem addr

record block =
  contents :: memory
  metatable :: "nat option"

datatype uc_call =
    UcClose addr
  | UcContextAlloc addr
  | UcContextSave addr addr
  | UcContextRestore addr addr
  | UcQuery addr int
  | UcErrno addr
  | UcEmuStart addr "64 word" "64 word" "64 word" "64 word"
  | UcEmuStop addr

record uc_reply =
  status :: int
  out :: nat

datatype hook_call = HookDel nat lua_value

datatype lua_error =
    ClosedEngine
  | NoEngineObject addr
  | ArgError int
  | NativeError int
  | IndexError
  | InvalidKey
  | ApiMisuse

record lua_State =
  stack :: "lua_value list"
  udata :: "block list"
  tables :: "lua_table list"
  reg_fields :: "string \<Rightarrow> nat option"
  reg_refs :: "lua_value list"
  table_slot :: "lua_table \<Rightarrow> lua_value \<Rightarrow> nat"
  junk_ptr :: addr
  junk_int :: int
  uc_lib :: "uc_call list \<Rightarrow> uc_call \<Rightarrow> uc_reply"
  uc_trace :: "uc_call list"
  hook_log :: "hook_call list"

text \<open>
  \<open>udata\<close>: block \<open>u\<close> (counted from 1) is \<open>udata ! (u - 1)\<close>; blocks are never
  freed, the collector is not part of the model. \<open>tables\<close>: table \<open>t\<close> (counted
  from 0) is \<open>tables ! t\<close>. The metatable of a block is a table or nothing.
  \<open>reg_fields\<close> and \<open>reg_refs\<close> are the string keys and the integer keys (from 1) of
  the registry; a string key holds a table or nothing, as the keys of the binding
  and of Lua's own libraries do. \<open>table_slot\<close> is the place a new key
  takes in a table's traversal order, which the Lua manual leaves unspecified.
  \<open>junk_ptr\<close> and \<open>junk_int\<close> are what a block holds before it is written
  (\<^verbatim>\<open>lua_newuserdata\<close> does not clear it). \<open>uc_lib\<close> answers a call to the Unicorn
  library from the calls made before it, \<open>uc_trace\<close>; \<open>hook_log\<close> lists the
  calls to the hook manager.
\<close>

datatype 'a outcome = Return 'a lua_State | Raise lua_error lua_State

definition and_then :: "'a outcome \<Rightarrow> ('a \<Rightarrow> lua_State \<Rightarrow> 'b outcome) \<Rightarrow> 'b outcome" where
  "and_then m f = (case m of Return x L \<Rightarrow> f x L | Raise e L \<Rightarrow> Raise e L)"

definition LUA_NOREF :: int where
  "LUA_NOREF = - 2"

definition LUA_REFNIL :: int where
  "LUA_REFNIL = - 1"

definition UC_ERR_OK :: int where
  "UC_ERR_OK = 0"

definition kContextMetatableName :: string where
  "kContextMetatableName = ''unicornlua__context_meta''"

definition kEngineMetatableName :: string where
  "kEngineMetatableName = ''unicornlua__engine_meta''"

definition kEnginePointerMapName :: string where
  "kEnginePointerMapName = ''unicornlua__engine_ptr_map''"

subsection \<open>Tables\<close>

definition table_get :: "lua_table \<Rightarrow> lua_value \<Rightarrow> lua_value" where
  "table_get t k = (case map_of t k of None \<Rightarrow> LNil | Some v \<Rightarrow> v)"

definition table_set :: "(lua_table \<Rightarrow> lua_value \<Rightarrow> nat) \<Rightarrow> lua_table \<Rightarrow> lua_value \<Rightarrow> lua_value \<Rightarrow> lua_table" where
  "table_set slot t k v =
     (if k \<in> set (map fst t) then map (\<lambda>(k', v'). if k' = k then (k', v) else (k', v')) t
      else if v = LNil then t
      else take (slot t k) t @ [(k, v)] @ drop (slot t k) t)"

fun first_live :: "lua_table \<Rightarrow> (lua_value \<times> lua_value) option" where
  "first_live [] = None"
| "first_live ((k, v) # t) = (if v = LNil then first_live t else Some (k, v))"

fun after_key :: "lua_table \<Rightarrow> lua_value \<Rightarrow> lua_table option" where
  "after_key [] k = None"
| "after_key ((k', v) # t) k = (if k' = k then Some t else after_key t k)"

definition table_next :: "lua_table \<Rightarrow> lua_value \<Rightarrow> (lua_value \<times> lua_value) option option" where
  "table_next t k =
     (if k = LNil then Some (first_live t)
      else case after_key t k of None \<Rightarrow> None | Some r \<Rightarrow> Some (first_live r))"

subsection \<open>The Lua C API\<close>

text \<open>
  The calls of the Lua C API that engine.c makes, on the state above. An index is
  a C \<^verbatim>\<open>int\<close>: positive from the bottom of the stack, negative from the top. The
  registry is reached with \<^verbatim>\<open>LUA_REGISTRYINDEX\<close> only, so its calls have functions of
  their own. A call that the Lua manual gives no meaning, such as \<^verbatim>\<open>lua_next\<close> on a
  value that is no table, ends in \<open>ApiMisuse\<close>; so does \<^verbatim>\<open>luaL_setmetatable\<close> on a value
  that is no block, as only blocks have a metatable here and engine.c sets one on
  the block it has just created. Running out of memory is left out.
  The values are those that engine.c handles; numbers that are not integers and
  strings are not among them, so \<^verbatim>\<open>luaL_checkinteger\<close> accepts an integer and nothing
  else. \<^verbatim>\<open>luaL_ref\<close> gives a reference that is not in use; it does not reuse one
  that was given back. \<^verbatim>\<open>luaL_setmetatable\<close> attaches what the registry holds under
  the name, which is nothing when no metatable was registered under it, and
  \<^verbatim>\<open>luaL_checkudata\<close> accepts a block whose metatable is the one the registry holds
  under the name. \<^verbatim>\<open>ul_init_engines_lib\<close>, which registers the engine metatable and
  stores the Handle Registry (a table with weak values) in the registry, is not
  translated: what it leaves is stated where it is needed, by the predicates
  \<open>pointer_map\<close> and \<open>is_engine_object\<close> below. No function of engine.c registers
  the context metatable.
\<close>

definition lua_gettop :: "lua_State \<Rightarrow> int" where
  "lua_gettop L = int (length (stack L))"

definition lua_absindex :: "lua_State \<Rightarrow> int \<Rightarrow> int" where
  "lua_absindex L i = (if 0 < i then i else lua_gettop L + i + 1)"

definition index2value :: "lua_State \<Rightarrow> int \<Rightarrow> lua_value option" where
  "index2value L i =
     (let j = lua_absindex L i
      in if 1 \<le> j \<and> j \<le> lua_gettop L then Some (stack L ! nat (j - 1)) else None)"

definition block_at :: "lua_State \<Rightarrow> nat \<Rightarrow> block option" where
  "block_at L u = (if 1 \<le> u \<and> u \<le> length (udata L) then Some (udata L ! (u - 1)) else None)"

definition table_at :: "lua_State \<Rightarrow> nat \<Rightarrow> lua_table option" where
  "table_at L t = (if t < length (tables L) then Some (tables L ! t) else None)"

definition lua_push :: "lua_State \<Rightarrow> lua_value \<Rightarrow> lua_State" where
  "lua_push L v = L\<lparr>stack := stack L @ [v]\<rparr>"

definition lua_pushnil :: "lua_State \<Rightarrow> lua_State" where
  "lua_pushnil L = lua_push L LNil"

definition lua_pushinteger :: "lua_State \<Rightarrow> int \<Rightarrow> lua_State" where
  "lua_pushinteger L n = lua_push L (LInteger n)"

definition lua_pushlightuserdata :: "lua_State \<Rightarrow> addr \<Rightarrow> lua_State" where
  "lua_pushlightuserdata L p = lua_push L (LLightUserdata p)"

definition lua_pushvalue :: "lua_State \<Rightarrow> int \<Rightarrow> unit outcome" where
  "lua_pushvalue L i =
     (case index2value L i of None \<Rightarrow> Raise ApiMisuse L | Some v \<Rightarrow> Return () (lua_push L v))"

definition lua_pop :: "lua_State \<Rightarrow> nat \<Rightarrow> unit outcome" where
  "lua_pop L n =
     (if n \<le> length (stack L) then Return () (L\<lparr>stack := take (length (stack L) - n) (stack L)\<rparr>)
      else Raise ApiMisuse L)"

definition lua_remove :: "lua_State \<Rightarrow> int \<Rightarrow> unit outcome" where
  "lua_remove L i =
     (let j = lua_absindex L i
      in if 1 \<le> j \<and> j \<le> lua_gettop L
         then Return () (L\<lparr>stack := take (nat (j - 1)) (stack L) @ drop (nat j) (stack L)\<rparr>)
         else Raise ApiMisuse L)"

definition lua_isnil :: "lua_State \<Rightarrow> int \<Rightarrow> bool" where
  "lua_isnil L i = (index2value L i = Some LNil)"

definition lua_newuserdata :: "lua_State \<Rightarrow> memory \<Rightarrow> nat outcome" where
  "lua_newuserdata L m =
     (let u = length (udata L) + 1
      in Return u (lua_push (L\<lparr>udata := udata L @ [\<lparr>contents = m, metatable = None\<rparr>]\<rparr>) (LUserdata u)))"

definition luaL_setmetatable :: "lua_State \<Rightarrow> string \<Rightarrow> unit outcome" where
  "luaL_setmetatable L tname =
     (case index2value L (- 1) of
        Some (LUserdata u) \<Rightarrow>
          (case block_at L u of
             None \<Rightarrow> Raise ApiMisuse L
           | Some b \<Rightarrow>
               Return () (L\<lparr>udata := (udata L)[u - 1 := b\<lparr>metatable := reg_fields L tname\<rparr>]\<rparr>))
      | _ \<Rightarrow> Raise ApiMisuse L)"

definition luaL_checkudata :: "lua_State \<Rightarrow> int \<Rightarrow> string \<Rightarrow> nat outcome" where
  "luaL_checkudata L i tname =
     (case index2value L i of
        Some (LUserdata u) \<Rightarrow>
          (case block_at L u of
             None \<Rightarrow> Raise (ArgError i) L
           | Some b \<Rightarrow>
               if metatable b \<noteq> None \<and> metatable b = reg_fields L tname then Return u L
               else Raise (ArgError i) L)
      | _ \<Rightarrow> Raise (ArgError i) L)"

definition luaL_checkinteger :: "lua_State \<Rightarrow> int \<Rightarrow> int outcome" where
  "luaL_checkinteger L i =
     (case index2value L i of
        Some (LInteger n) \<Rightarrow> Return n L
      | _ \<Rightarrow> Raise (ArgError i) L)"

definition luaL_optinteger :: "lua_State \<Rightarrow> int \<Rightarrow> int \<Rightarrow> int outcome" where
  "luaL_optinteger L i d =
     (case index2value L i of
        None \<Rightarrow> Return d L
      | Some LNil \<Rightarrow> Return d L
      | _ \<Rightarrow> luaL_checkinteger L i)"

definition lua_getfield_registry :: "lua_State \<Rightarrow> string \<Rightarrow> lua_State" where
  "lua_getfield_registry L name =
     lua_push L (case reg_fields L name of None \<Rightarrow> LNil | Some t \<Rightarrow> LTable t)"

definition registry_geti :: "lua_State \<Rightarrow> int \<Rightarrow> lua_value" where
  "registry_geti L r =
     (if 1 \<le> r \<and> r \<le> int (length (reg_refs L)) then reg_refs L ! nat (r - 1) else LNil)"

definition lua_geti_registry :: "lua_State \<Rightarrow> int \<Rightarrow> lua_State" where
  "lua_geti_registry L r = lua_push L (registry_geti L r)"

definition lua_newtable :: "lua_State \<Rightarrow> lua_State" where
  "lua_newtable L = lua_push (L\<lparr>tables := tables L @ [[]]\<rparr>) (LTable (length (tables L)))"

definition luaL_ref_registry :: "lua_State \<Rightarrow> int outcome" where
  "luaL_ref_registry L =
     (case index2value L (- 1) of
        None \<Rightarrow> Raise ApiMisuse L
      | Some v \<Rightarrow>
          and_then (lua_pop L 1) (\<lambda>_ L1.
            if v = LNil then Return LUA_REFNIL L1
            else Return (int (length (reg_refs L1)) + 1) (L1\<lparr>reg_refs := reg_refs L1 @ [v]\<rparr>)))"

definition luaL_unref_registry :: "lua_State \<Rightarrow> int \<Rightarrow> lua_State" where
  "luaL_unref_registry L r =
     (if 1 \<le> r \<and> r \<le> int (length (reg_refs L))
      then L\<lparr>reg_refs := (reg_refs L)[nat (r - 1) := LNil]\<rparr>
      else L)"

definition lua_settable :: "lua_State \<Rightarrow> int \<Rightarrow> unit outcome" where
  "lua_settable L i =
     (case (index2value L i, index2value L (- 2), index2value L (- 1)) of
        (Some t, Some k, Some v) \<Rightarrow>
          and_then (lua_pop L 2) (\<lambda>_ L1.
            case t of
              LTable n \<Rightarrow>
                (case table_at L1 n of
                   None \<Rightarrow> Raise ApiMisuse L1
                 | Some nodes \<Rightarrow>
                     if k = LNil then Raise IndexError L1
                     else Return () (L1\<lparr>tables := (tables L1)[n := table_set (table_slot L1) nodes k v]\<rparr>))
            | _ \<Rightarrow> Raise IndexError L1)
      | _ \<Rightarrow> Raise ApiMisuse L)"

definition lua_gettable :: "lua_State \<Rightarrow> int \<Rightarrow> unit outcome" where
  "lua_gettable L i =
     (case (index2value L i, index2value L (- 1)) of
        (Some t, Some k) \<Rightarrow>
          and_then (lua_pop L 1) (\<lambda>_ L1.
            case t of
              LTable n \<Rightarrow>
                (case table_at L1 n of
                   None \<Rightarrow> Raise ApiMisuse L1
                 | Some nodes \<Rightarrow> Return () (lua_push L1 (table_get nodes k)))
            | _ \<Rightarrow> Raise IndexError L1)
      | _ \<Rightarrow> Raise ApiMisuse L)"

definition lua_next :: "lua_State \<Rightarrow> int \<Rightarrow> int outcome" where
  "lua_next L i =
     (case (index2value L i, index2value L (- 1)) of
        (Some (LTable n), Some k) \<Rightarrow>
          (case table_at L n of
             None \<Rightarrow> Raise ApiMisuse L
           | Some nodes \<Rightarrow>
               and_then (lua_pop L 1) (\<lambda>_ L1.
                 case table_next nodes k of
                   None \<Rightarrow> Raise InvalidKey L1
                 | Some None \<Rightarrow> Return 0 L1
                 | Some (Some (k', v')) \<Rightarrow> Return 1 (lua_push (lua_push L1 k') v')))
      | _ \<Rightarrow> Raise ApiMisuse L)"

subsection \<open>The Unicorn library\<close>

definition uc_invoke :: "lua_State \<Rightarrow> uc_call \<Rightarrow> uc_reply \<times> lua_State" where
  "uc_invoke L c = (uc_lib L (uc_trace L) c, L\<lparr>uc_trace := uc_trace L @ [c]\<rparr>)"

subsection \<open>Engine objects\<close>

definition peek_engine :: "lua_State \<Rightarrow> nat \<Rightarrow> UCLuaEngine option" where
  "peek_engine L u =
     (case block_at L u of
        Some b \<Rightarrow> (case contents b of EngineMem eo \<Rightarrow> Some eo | _ \<Rightarrow> None)
      | None \<Rightarrow> None)"

definition poke_engine :: "lua_State \<Rightarrow> nat \<Rightarrow> (UCLuaEngine \<Rightarrow> UCLuaEngine) \<Rightarrow> lua_State" where
  "poke_engine L u f =
     (case peek_engine L u of
        Some eo \<Rightarrow> L\<lparr>udata := (udata L)[u - 1 := (udata L ! (u - 1))\<lparr>contents := EngineMem (f eo)\<rparr>]\<rparr>
      | None \<Rightarrow> L)"

definition peek_context :: "lua_State \<Rightarrow> nat \<Rightarrow> addr option" where
  "peek_context L u =
     (case block_at L u of
        Some b \<Rightarrow> (case contents b of ContextMem c \<Rightarrow> Some c | _ \<Rightarrow> None)
      | None \<Rightarrow> None)"

definition engine_of :: "lua_State \<Rightarrow> nat \<Rightarrow> addr" where
  "engine_of L u = (case peek_engine L u of Some eo \<Rightarrow> engine eo | None \<Rightarrow> junk_ptr L)"

definition hook_table_ref_of :: "lua_State \<Rightarrow> nat \<Rightarrow> int" where
  "hook_table_ref_of L u = (case peek_engine L u of Some eo \<Rightarrow> hook_table_ref eo | None \<Rightarrow> junk_int L)"

definition context_of :: "lua_State \<Rightarrow> nat \<Rightarrow> addr" where
  "context_of L u = (case peek_context L u of Some c \<Rightarrow> c | None \<Rightarrow> junk_ptr L)"

text \<open>
  \<open>engine_of L u\<close> is the C expression \<^verbatim>\<open>engine_object->engine\<close> for the block \<open>u\<close>,
  \<open>hook_table_ref_of L u\<close> is \<^verbatim>\<open>engine_object->hook_table_ref\<close>; \<open>poke_engine\<close>
  is an assignment to one of the two fields.
\<close>

section \<open>Helpers of the repository that engine.c calls\<close>

text \<open>
  Modelled from the spec: \<^verbatim>\<open>ul_crash_on_error\<close> (utils.c is not among the sources).
  It is the single error-reporting path: the native status is surfaced to the caller
  as an error, and control does not come back to the function that reported it.
\<close>

definition ul_crash_on_error :: "lua_State \<Rightarrow> int \<Rightarrow> int outcome" where
  "ul_crash_on_error L error = Raise (NativeError error) L"

text \<open>
  Modelled from the spec: \<^verbatim>\<open>ul_hook_del_by_indexes\<close> (hooks.c is not among the
  sources). It is the Hook Manager's delete for the wrapper at \<open>engine_index\<close> and
  the hook id at \<open>hook_handle_index\<close>: the call is recorded, and the entry leaves the
  wrapper's Hook Table, which the spec says removal operations mutate. The spec gives
  it no failure of its own.
\<close>

definition ul_hook_del_by_indexes :: "lua_State \<Rightarrow> int \<Rightarrow> int \<Rightarrow> unit outcome" where
  "ul_hook_del_by_indexes L engine_index hook_handle_index =
     and_then (luaL_checkudata L engine_index kEngineMetatableName) (\<lambda>engine_object L1.
       case index2value L1 hook_handle_index of
         None \<Rightarrow> Raise ApiMisuse L1
       | Some hook_id \<Rightarrow>
           let L2 = L1\<lparr>hook_log := hook_log L1 @ [HookDel engine_object hook_id]\<rparr>
           in (case registry_geti L2 (hook_table_ref_of L2 engine_object) of
                 LTable n \<Rightarrow>
                   (case table_at L2 n of
                      None \<Rightarrow> Return () L2
                    | Some nodes \<Rightarrow>
                        Return () (L2\<lparr>tables := (tables L2)[n := table_set (table_slot L2) nodes hook_id LNil]\<rparr>))
               | _ \<Rightarrow> Return () L2))"

text \<open>
  Modelled from the spec: \<^verbatim>\<open>ul_tocontext\<close> (not among the sources). A Snapshot Object
  wraps a native context handle; the function resolves the object at \<open>index\<close> to the
  handle its block holds.
\<close>

definition ul_tocontext :: "lua_State \<Rightarrow> int \<Rightarrow> addr outcome" where
  "ul_tocontext L index =
     and_then (luaL_checkudata L index kContextMetatableName) (\<lambda>u L1. Return (context_of L1 u) L1)"

section \<open>engine.c\<close>

definition ul_toengine :: "lua_State \<Rightarrow> int \<Rightarrow> addr outcome" where
  "ul_toengine L index =
     and_then (luaL_checkudata L index kEngineMetatableName) (\<lambda>engine_object L1.
       if engine_of L1 engine_object = 0 then Raise ClosedEngine L1
       else Return (engine_of L1 engine_object) L1)"

definition ul_create_engine_object :: "lua_State \<Rightarrow> addr \<Rightarrow> unit outcome" where
  "ul_create_engine_object L engine_ptr =
     and_then (lua_newuserdata L (EngineMem \<lparr>engine = junk_ptr L, hook_table_ref = junk_int L\<rparr>))
       (\<lambda>engine_object L1.
     let L2 = poke_engine L1 engine_object (\<lambda>eo. eo\<lparr>engine := engine_ptr\<rparr>) in
     and_then (luaL_setmetatable L2 kEngineMetatableName) (\<lambda>_ L3.
     let L4 = lua_getfield_registry L3 kEnginePointerMapName;
         L5 = lua_pushlightuserdata L4 engine_ptr in
     and_then (lua_pushvalue L5 (- 3)) (\<lambda>_ L6.
     and_then (lua_settable L6 (- 3)) (\<lambda>_ L7.
     and_then (lua_pop L7 1) (\<lambda>_ L8.
     let L9 = lua_newtable L8 in
     and_then (luaL_ref_registry L9) (\<lambda>r L10.
       Return () (poke_engine L10 engine_object (\<lambda>eo. eo\<lparr>hook_table_ref := r\<rparr>))))))))"

text \<open>
  The loop of \<^verbatim>\<open>ul_free_engine_object\<close> that releases the hooks. The key of the
  traversal is on top of the stack when an iteration starts. The loop stops when
  \<^verbatim>\<open>lua_next\<close> finds no further entry; \<open>None\<close> stands for a loop that does not stop.
\<close>

partial_function (option) release_hooks :: "lua_State \<Rightarrow> int \<Rightarrow> int \<Rightarrow> unit outcome option" where
  "release_hooks L engine_index hook_table_index =
     (case lua_next L hook_table_index of
        Raise e L1 \<Rightarrow> Some (Raise e L1)
      | Return has_next L1 \<Rightarrow>
          if has_next \<noteq> 0 then
            (case and_then (ul_hook_del_by_indexes L1 engine_index (- 2)) (\<lambda>_ L2. lua_pop L2 1) of
               Raise e L3 \<Rightarrow> Some (Raise e L3)
             | Return _ L3 \<Rightarrow> release_hooks L3 engine_index hook_table_index)
          else Some (Return () L1))"

declare release_hooks.simps [code]

definition ul_free_engine_object :: "lua_State \<Rightarrow> int \<Rightarrow> unit outcome option" where
  "ul_free_engine_object L engine_index0 =
     (let engine_index = lua_absindex L engine_index0 in
      case luaL_checkudata L engine_index kEngineMetatableName of
        Raise e L1 \<Rightarrow> Some (Raise e L1)
      | Return engine_object L1 \<Rightarrow>
          if engine_of L1 engine_object = 0 then Some (Return () L1)
          else
            let L2 = lua_geti_registry L1 (hook_table_ref_of L1 engine_object);
                hook_table_index = lua_absindex L2 (- 1);
                L3 = lua_pushnil L2
            in (case release_hooks L3 engine_index hook_table_index of
                  None \<Rightarrow> None
                | Some (Raise e L4) \<Rightarrow> Some (Raise e L4)
                | Some (Return _ L4) \<Rightarrow> Some (
                    and_then (lua_pop L4 1) (\<lambda>_ L5.
                    let L6 = luaL_unref_registry L5 (hook_table_ref_of L5 engine_object);
                        L7 = poke_engine L6 engine_object (\<lambda>eo. eo\<lparr>hook_table_ref := LUA_NOREF\<rparr>)
                    in case uc_invoke L7 (UcClose (engine_of L7 engine_object)) of (reply, L8) \<Rightarrow>
                    and_then (if status reply \<noteq> UC_ERR_OK then ul_crash_on_error L8 (status reply)
                              else Return 0 L8) (\<lambda>_ L9.
                    let L10 = lua_getfield_registry L9 kEnginePointerMapName;
                        L11 = lua_pushlightuserdata L10 (engine_of L10 engine_object);
                        L12 = lua_pushnil L11 in
                    and_then (lua_settable L12 (- 3)) (\<lambda>_ L13.
                    and_then (lua_pop L13 1) (\<lambda>_ L14.
                      Return () (poke_engine L14 engine_object (\<lambda>eo. eo\<lparr>engine := 0\<rparr>)))))))))"

definition ul_get_engine_object :: "lua_State \<Rightarrow> addr \<Rightarrow> unit outcome" where
  "ul_get_engine_object L engine_ptr =
     (let L1 = lua_getfield_registry L kEnginePointerMapName;
          L2 = lua_pushlightuserdata L1 engine_ptr in
      and_then (lua_gettable L2 (- 2)) (\<lambda>_ L3.
      and_then (if lua_isnil L3 (- 1)
                then and_then (lua_pop L3 2) (\<lambda>_ L4. Raise (NoEngineObject engine_ptr) L4)
                else Return () L3) (\<lambda>_ L5.
        lua_remove L5 (- 2))))"

definition ul_context_alloc :: "lua_State \<Rightarrow> int outcome" where
  "ul_context_alloc L =
     and_then (ul_toengine L 1) (\<lambda>engine_ptr L1.
     and_then (lua_newuserdata L1 (ContextMem (junk_ptr L1))) (\<lambda>context L2.
     and_then (luaL_setmetatable L2 kContextMetatableName) (\<lambda>_ L3.
     case uc_invoke L3 (UcContextAlloc engine_ptr) of (reply, L4) \<Rightarrow>
       let context = out reply in
       if status reply \<noteq> UC_ERR_OK then ul_crash_on_error L4 (status reply)
       else Return 1 L4)))"

text \<open>
  In \<^verbatim>\<open>ul_context_alloc\<close> the local variable \<^verbatim>\<open>context\<close> first holds the address of
  the new block. \<^verbatim>\<open>uc_context_alloc(engine, &context)\<close> is given the address of that
  local variable, so the handle the library allocates (\<open>out reply\<close>) replaces the
  variable's value; no statement writes to the block.
\<close>

definition ul_context_save :: "lua_State \<Rightarrow> int outcome" where
  "ul_context_save L =
     and_then (ul_toengine L 1) (\<lambda>engine_ptr L1.
     and_then (if lua_gettop L1 < 2 then ul_context_alloc L1 else Return 0 L1) (\<lambda>_ L2.
     and_then (ul_tocontext L2 2) (\<lambda>context L3.
     case uc_invoke L3 (UcContextSave engine_ptr context) of (reply, L4) \<Rightarrow>
       if status reply \<noteq> UC_ERR_OK then ul_crash_on_error L4 (status reply)
       else Return 1 L4)))"

definition ul_context_restore :: "lua_State \<Rightarrow> int outcome" where
  "ul_context_restore L =
     and_then (ul_toengine L 1) (\<lambda>engine_ptr L1.
     and_then (ul_tocontext L1 2) (\<lambda>context L2.
     case uc_invoke L2 (UcContextRestore engine_ptr context) of (reply, L3) \<Rightarrow>
       if status reply \<noteq> UC_ERR_OK then ul_crash_on_error L3 (status reply)
       else Return 0 L3))"

definition ul_close :: "lua_State \<Rightarrow> int outcome option" where
  "ul_close L =
     (case ul_free_engine_object L 1 of
        None \<Rightarrow> None
      | Some (Raise e L1) \<Rightarrow> Some (Raise e L1)
      | Some (Return _ L1) \<Rightarrow> Some (Return 0 L1))"

definition ul_query :: "lua_State \<Rightarrow> int outcome" where
  "ul_query L =
     and_then (ul_toengine L 1) (\<lambda>engine_ptr L1.
     and_then (luaL_checkinteger L1 1) (\<lambda>query_type L2.
     case uc_invoke L2 (UcQuery engine_ptr query_type) of (reply, L3) \<Rightarrow>
       if status reply \<noteq> UC_ERR_OK then ul_crash_on_error L3 (status reply)
       else Return 1 (lua_pushinteger L3 (sint (word_of_nat (out reply) :: 64 word)))))"

definition ul_errno :: "lua_State \<Rightarrow> int outcome" where
  "ul_errno L =
     and_then (ul_toengine L 1) (\<lambda>engine_ptr L1.
     case uc_invoke L1 (UcErrno engine_ptr) of (reply, L2) \<Rightarrow>
       Return 1 (lua_pushinteger L2 (status reply)))"

definition ul_emu_start :: "lua_State \<Rightarrow> int outcome" where
  "ul_emu_start L =
     and_then (ul_toengine L 1) (\<lambda>engine_ptr L1.
     and_then (luaL_checkinteger L1 2) (\<lambda>start L2.
     and_then (luaL_checkinteger L2 3) (\<lambda>end_addr L3.
     and_then (luaL_optinteger L3 4 0) (\<lambda>timeout L4.
     and_then (luaL_optinteger L4 5 0) (\<lambda>n_instructions L5.
     case uc_invoke L5 (UcEmuStart engine_ptr (word_of_int start) (word_of_int end_addr)
                          (word_of_int timeout) (word_of_int n_instructions)) of (reply, L6) \<Rightarrow>
       if status reply \<noteq> UC_ERR_OK then ul_crash_on_error L6 (status reply)
       else Return 0 L6)))))"

definition ul_emu_stop :: "lua_State \<Rightarrow> int outcome" where
  "ul_emu_stop L =
     and_then (ul_toengine L 1) (\<lambda>engine_ptr L1.
     case uc_invoke L1 (UcEmuStop engine_ptr) of (reply, L2) \<Rightarrow>
       if status reply \<noteq> UC_ERR_OK then ul_crash_on_error L2 (status reply)
       else Return 0 L2)"

text \<open>
  The two method tables. The functions of the other files of the binding are a
  parameter of the second table.
\<close>

type_synonym lua_CFunction = "lua_State \<Rightarrow> int outcome option"

definition kEngineMetamethods :: "(string \<times> lua_CFunction) list" where
  "kEngineMetamethods = [(''__gc'', ul_close)]"

definition kEngineInstanceMethods :: "(string \<Rightarrow> lua_CFunction) \<Rightarrow> (string \<times> lua_CFunction) list" where
  "kEngineInstanceMethods other =
     [(''close'', ul_close),
      (''context_restore'', \<lambda>L. Some (ul_context_restore L)),
      (''context_save'', \<lambda>L. Some (ul_context_save L)),
      (''emu_start'', \<lambda>L. Some (ul_emu_start L)),
      (''emu_stop'', \<lambda>L. Some (ul_emu_stop L)),
      (''errno'', \<lambda>L. Some (ul_errno L)),
      (''hook_add'', other ''hook_add''),
      (''hook_del'', other ''hook_del''),
      (''mem_map'', other ''mem_map''),
      (''mem_protect'', other ''mem_protect''),
      (''mem_read'', other ''mem_read''),
      (''mem_regions'', other ''mem_regions''),
      (''mem_unmap'', other ''mem_unmap''),
      (''mem_write'', other ''mem_write''),
      (''query'', \<lambda>L. Some (ul_query L)),
      (''reg_read'', other ''reg_read''),
      (''reg_read_batch'', other ''reg_read_batch''),
      (''reg_write'', other ''reg_write''),
      (''reg_write_batch'', other ''reg_write_batch'')]"

section \<open>Vocabulary of the properties\<close>

text \<open>
  The predicates and the result states that the statements below are written in.
  Block \<open>w\<close> is an engine object when it carries the metatable that the registry
  holds under the name of the engine metatable, which \<^verbatim>\<open>ul_init_engines_lib\<close> registers,
  and holds a \<^verbatim>\<open>UCLuaEngine\<close>; it is OPEN when its \<^verbatim>\<open>engine\<close> field is not \<^verbatim>\<open>NULL\<close> and
  CLOSED when it is. Block \<open>s\<close> is a Snapshot Object when it carries the metatable that
  the registry holds under the name of the context metatable and holds a context
  pointer; these are the blocks that \<^verbatim>\<open>luaL_checkudata\<close> accepts under the two names.
\<close>

definition is_engine_object :: "lua_State \<Rightarrow> nat \<Rightarrow> bool" where
  "is_engine_object L w =
     (case block_at L w of
        Some b \<Rightarrow> metatable b \<noteq> None \<and> metatable b = reg_fields L kEngineMetatableName \<and>
                  (case contents b of EngineMem eo \<Rightarrow> True | _ \<Rightarrow> False)
      | None \<Rightarrow> False)"

definition is_open :: "lua_State \<Rightarrow> nat \<Rightarrow> bool" where
  "is_open L w = (is_engine_object L w \<and> engine_of L w \<noteq> 0)"

definition is_closed :: "lua_State \<Rightarrow> nat \<Rightarrow> bool" where
  "is_closed L w = (is_engine_object L w \<and> engine_of L w = 0)"

definition is_context_object :: "lua_State \<Rightarrow> nat \<Rightarrow> bool" where
  "is_context_object L s =
     (case block_at L s of
        Some b \<Rightarrow> metatable b \<noteq> None \<and> metatable b = reg_fields L kContextMetatableName \<and>
                  (case contents b of ContextMem c \<Rightarrow> True | _ \<Rightarrow> False)
      | None \<Rightarrow> False)"

text \<open>The wrapper \<open>w\<close> is the first argument of the call.\<close>

definition called_on :: "lua_State \<Rightarrow> nat \<Rightarrow> bool" where
  "called_on L w = (stack L \<noteq> [] \<and> hd (stack L) = LUserdata w)"

text \<open>A table of Lua holds a key once, and never the key nil.\<close>

definition proper_table :: "lua_table \<Rightarrow> bool" where
  "proper_table t = (distinct (map fst t) \<and> LNil \<notin> set (map fst t))"

text \<open>The hook table of \<open>w\<close> is table \<open>n\<close>, reached through the wrapper's reference.\<close>

definition has_hook_table :: "lua_State \<Rightarrow> nat \<Rightarrow> nat \<Rightarrow> bool" where
  "has_hook_table L w n =
     (registry_geti L (hook_table_ref_of L w) = LTable n \<and> n < length (tables L) \<and>
      proper_table (tables L ! n))"

text \<open>The Handle Registry is table \<open>m\<close>, as \<^verbatim>\<open>ul_init_engines_lib\<close> leaves it.\<close>

definition pointer_map :: "lua_State \<Rightarrow> nat \<Rightarrow> bool" where
  "pointer_map L m = (reg_fields L kEnginePointerMapName = Some m \<and> m < length (tables L))"

text \<open>The status the Unicorn library gives to the next call, if it is \<^verbatim>\<open>uc_close(h)\<close>.\<close>

definition uc_close_status :: "lua_State \<Rightarrow> addr \<Rightarrow> int" where
  "uc_close_status L h = status (uc_lib L (uc_trace L) (UcClose h))"

definition cleared :: "lua_table \<Rightarrow> lua_table" where
  "cleared t = map (\<lambda>(k, v). (k, LNil)) t"

text \<open>The keys of the entries of a table, in the order \<^verbatim>\<open>lua_next\<close> gives them.\<close>

definition live_keys :: "lua_table \<Rightarrow> lua_value list" where
  "live_keys t = map fst (filter (\<lambda>(k, v). v \<noteq> LNil) t)"

text \<open>
  The state in which \<^verbatim>\<open>ul_free_engine_object\<close> has called \<^verbatim>\<open>uc_close\<close>: the hooks of
  table \<open>n\<close> are deleted, the reference to the table is given back, the field
  \<^verbatim>\<open>hook_table_ref\<close> is \<^verbatim>\<open>LUA_NOREF\<close>.
\<close>

definition hooks_released :: "lua_State \<Rightarrow> nat \<Rightarrow> nat \<Rightarrow> lua_State" where
  "hooks_released L w n =
     L\<lparr>tables := (tables L)[n := cleared (tables L ! n)],
       hook_log := hook_log L @ map (HookDel w) (live_keys (tables L ! n)),
       reg_refs := (reg_refs L)[nat (hook_table_ref_of L w - 1) := LNil],
       udata := (udata L)[w - 1 := (udata L ! (w - 1))\<lparr>contents :=
                   EngineMem \<lparr>engine = engine_of L w, hook_table_ref = LUA_NOREF\<rparr>\<rparr>],
       uc_trace := uc_trace L @ [UcClose (engine_of L w)]\<rparr>"

text \<open>The state in which \<^verbatim>\<open>ul_free_engine_object\<close> returns from an OPEN wrapper.\<close>

definition engine_closed :: "lua_State \<Rightarrow> nat \<Rightarrow> nat \<Rightarrow> nat \<Rightarrow> lua_State" where
  "engine_closed L w n m =
     (let H = hooks_released L w n
      in H\<lparr>tables := (tables H)[m := table_set (table_slot L) (tables H ! m)
                                       (LLightUserdata (engine_of L w)) LNil],
           udata := (udata L)[w - 1 := (udata L ! (w - 1))\<lparr>contents :=
                   EngineMem \<lparr>engine = 0, hook_table_ref = LUA_NOREF\<rparr>\<rparr>]\<rparr>)"

text \<open>
  A state with one OPEN wrapper (block 1, handle 7) that has three hooks and is
  registered in the Handle Registry (table 0); \<open>s\<close> is the status \<^verbatim>\<open>uc_close\<close> will give.
  Tables 2 and 3 are the engine metatable and the context metatable, the second
  registered by another file of the binding. Their entries are functions, which are
  not among the values; no function of engine.c reads them.
\<close>

definition sample_lib :: "int \<Rightarrow> uc_call list \<Rightarrow> uc_call \<Rightarrow> uc_reply" where
  "sample_lib s h c = (case c of UcClose _ \<Rightarrow> \<lparr>status = s, out = 0\<rparr> | _ \<Rightarrow> \<lparr>status = 0, out = 4242\<rparr>)"

definition sample_fields :: "string \<Rightarrow> nat option" where
  "sample_fields name =
     (if name = kEnginePointerMapName then Some 0
      else if name = kEngineMetatableName then Some 2
      else if name = kContextMetatableName then Some 3
      else None)"

definition sample_state :: "int \<Rightarrow> lua_State" where
  "sample_state s =
     \<lparr>stack = [LUserdata 1],
      udata = [\<lparr>contents = EngineMem \<lparr>engine = 7, hook_table_ref = 1\<rparr>,
                metatable = Some 2\<rparr>],
      tables = [[(LLightUserdata 7, LUserdata 1)],
                [(LLightUserdata 11, LLightUserdata 101), (LLightUserdata 12, LLightUserdata 102),
                 (LLightUserdata 13, LLightUserdata 103)],
                [], []],
      reg_fields = sample_fields,
      reg_refs = [LTable 1],
      table_slot = (\<lambda>t k. length t),
      junk_ptr = 99, junk_int = 55,
      uc_lib = sample_lib s, uc_trace = [], hook_log = []\<rparr>"

text \<open>\<open>k\<close> calls of close, one after the other, on the same arguments.\<close>

fun close_calls :: "nat \<Rightarrow> lua_State \<Rightarrow> int outcome option" where
  "close_calls 0 L = Some (Return 0 L)"
| "close_calls (Suc k) L =
     (case ul_close L of
        Some (Return _ L') \<Rightarrow> close_calls k L'
      | r \<Rightarrow> r)"

text \<open>The state in which \<^verbatim>\<open>ul_create_engine_object\<close> returns.\<close>

definition engine_created :: "lua_State \<Rightarrow> addr \<Rightarrow> nat \<Rightarrow> lua_State" where
  "engine_created L p m =
     L\<lparr>stack := stack L @ [LUserdata (length (udata L) + 1)],
       udata := udata L @ [\<lparr>contents = EngineMem \<lparr>engine = p, hook_table_ref = int (length (reg_refs L)) + 1\<rparr>,
                            metatable = reg_fields L kEngineMetatableName\<rparr>],
       tables := (tables L)[m := table_set (table_slot L) (tables L ! m) (LLightUserdata p)
                                   (LUserdata (length (udata L) + 1))] @ [[]],
       reg_refs := reg_refs L @ [LTable (length (tables L))]\<rparr>"

text \<open>
  The state an outcome ends in, and the values a C function returns to Lua: the
  topmost \<open>n\<close> values of the stack when it returns \<open>n\<close>.
\<close>

definition state_of :: "'a outcome \<Rightarrow> lua_State" where
  "state_of r = (case r of Return _ L \<Rightarrow> L | Raise _ L \<Rightarrow> L)"

definition results :: "int outcome \<Rightarrow> lua_value list option" where
  "results r = (case r of Return n L \<Rightarrow> Some (drop (length (stack L) - nat n) (stack L)) | Raise _ _ \<Rightarrow> None)"

text \<open>The status the Unicorn library gives to the call \<open>c\<close> after the calls \<open>before\<close>.\<close>

definition uc_status :: "lua_State \<Rightarrow> uc_call list \<Rightarrow> uc_call \<Rightarrow> int" where
  "uc_status L before c = status (uc_lib L (uc_trace L @ before) c)"

text \<open>The state in which \<^verbatim>\<open>ul_context_alloc\<close> has called \<^verbatim>\<open>uc_context_alloc\<close>.\<close>

definition snapshot_allocated :: "lua_State \<Rightarrow> addr \<Rightarrow> lua_State" where
  "snapshot_allocated L h =
     L\<lparr>udata := udata L @ [\<lparr>contents = ContextMem (junk_ptr L),
                            metatable = reg_fields L kContextMetatableName\<rparr>],
       stack := stack L @ [LUserdata (Suc (length (udata L)))],
       uc_trace := uc_trace L @ [UcContextAlloc h]\<rparr>"

text \<open>A table built by inserting the pairs of \<open>kvs\<close>, in this order, into an empty table.\<close>

definition table_insert_all :: "(lua_table \<Rightarrow> lua_value \<Rightarrow> nat) \<Rightarrow> (lua_value \<times> lua_value) list \<Rightarrow> lua_table" where
  "table_insert_all slot kvs = foldl (\<lambda>t (k, v). table_set slot t k v) [] kvs"

text \<open>
  A table that keeps its nodes in the order of a hash of the key, as a hash table
  does: here the address of a light userdata modulo 3. A new key goes behind the
  nodes of smaller hash.
\<close>

definition address_hash :: "lua_value \<Rightarrow> nat" where
  "address_hash k = (case k of LLightUserdata p \<Rightarrow> p mod 3 | _ \<Rightarrow> 0)"

definition hashed_slot :: "lua_table \<Rightarrow> lua_value \<Rightarrow> nat" where
  "hashed_slot t k = length (filter (\<lambda>(k', v). address_hash k' < address_hash k) t)"

text \<open>
  The sample state with such tables, the hook table being built by three
  insertions; the sample state with the query type 1 as a second argument; the
  sample state with a Snapshot Object as a second argument.
\<close>

definition hashed_state :: lua_State where
  "hashed_state =
     (sample_state 0)\<lparr>table_slot := hashed_slot,
        tables := [[(LLightUserdata 7, LUserdata 1)],
                   table_insert_all hashed_slot
                     [(LLightUserdata 4112, LLightUserdata 101), (LLightUserdata 4096, LLightUserdata 102),
                      (LLightUserdata 4128, LLightUserdata 103)],
                   [], []]\<rparr>"

definition query_state :: lua_State where
  "query_state = (sample_state 0)\<lparr>stack := [LUserdata 1, LInteger 1]\<rparr>"

definition snapshot_state :: lua_State where
  "snapshot_state =
     (sample_state 0)\<lparr>stack := [LUserdata 1, LUserdata 2],
        udata := udata (sample_state 0) @
                 [\<lparr>contents = ContextMem 500, metatable = Some 3\<rparr>]\<rparr>"

section \<open>The stack and the blocks\<close>

lemma index2value_1: "stack L = S @ T \<Longrightarrow> S \<noteq> [] \<Longrightarrow> index2value L 1 = Some (hd S)"
  by (cases S) (simp_all add: index2value_def lua_absindex_def lua_gettop_def)

lemma index2value_abs: "stack L = xs @ x # ys \<Longrightarrow> index2value L (int (length xs) + 1) = Some x"
  by (simp add: index2value_def lua_absindex_def lua_gettop_def)

lemma index2value_top: "stack L = xs @ [x] \<Longrightarrow> index2value L (- 1) = Some x"
  by (simp add: index2value_def lua_absindex_def lua_gettop_def)

lemma index2value_top2: "stack L = xs @ [x, y] \<Longrightarrow> index2value L (- 2) = Some x"
  by (simp add: index2value_def lua_absindex_def lua_gettop_def nth_append)

lemma index2value_top3: "stack L = xs @ [x, y, z] \<Longrightarrow> index2value L (- 3) = Some x"
  by (simp add: index2value_def lua_absindex_def lua_gettop_def nth_append)

lemma lua_pop_1: "stack L = xs @ [x] \<Longrightarrow> lua_pop L (Suc 0) = Return () (L\<lparr>stack := xs\<rparr>)"
  by (simp add: lua_pop_def)

lemma lua_pop_2: "stack L = xs @ [x, y] \<Longrightarrow> lua_pop L 2 = Return () (L\<lparr>stack := xs\<rparr>)"
  by (simp add: lua_pop_def)

lemma lua_next_step:
  assumes "stack L = S @ [LTable n, key]" "n < length (tables L)"
  shows "lua_next L (int (length S) + 1) =
     (case table_next (tables L ! n) key of
        None \<Rightarrow> Raise InvalidKey (L\<lparr>stack := S @ [LTable n]\<rparr>)
      | Some None \<Rightarrow> Return 0 (L\<lparr>stack := S @ [LTable n]\<rparr>)
      | Some (Some (k', v')) \<Rightarrow> Return 1 (L\<lparr>stack := S @ [LTable n, k', v']\<rparr>))"
proof -
  have a: "index2value L (int (length S) + 1) = Some (LTable n)"
    using assms(1) by (rule index2value_abs)
  have "stack L = (S @ [LTable n]) @ [key]" using assms(1) by simp
  then have b: "index2value L (- 1) = Some key" and c: "lua_pop L (Suc 0) = Return () (L\<lparr>stack := S @ [LTable n]\<rparr>)"
    by (rule index2value_top, rule lua_pop_1)
  show ?thesis
    using assms(2) by (simp add: lua_next_def a b c table_at_def and_then_def lua_push_def split: option.splits)
qed

lemma checkudata_engine:
  assumes "stack L = S @ T" "S \<noteq> []" "hd S = LUserdata w" "is_engine_object L w"
  shows "luaL_checkudata L 1 kEngineMetatableName = Return w L"
  using assms(2-) index2value_1[OF assms(1,2)]
  by (auto simp add: luaL_checkudata_def is_engine_object_def split: option.splits)

lemma table_set_clear:
  assumes "distinct (map fst (pre @ (k, v) # post))"
  shows "table_set slot (pre @ (k, v) # post) k LNil = pre @ (k, LNil) # post"
proof -
  have "map (\<lambda>(k', v'). if k' = k then (k', LNil) else (k', v')) pre = pre"
    using assms by (intro map_idI) (auto simp: rev_image_eqI)
  moreover have "map (\<lambda>(k', v'). if k' = k then (k', LNil) else (k', v')) post = post"
    using assms by (intro map_idI) (auto simp: rev_image_eqI)
  ultimately show ?thesis by (simp add: table_set_def)
qed

lemma block_at_frame [simp]:
  "block_at (L\<lparr>stack := s\<rparr>) = block_at L"
  "block_at (L\<lparr>tables := t\<rparr>) = block_at L"
  "block_at (L\<lparr>reg_refs := r\<rparr>) = block_at L"
  "block_at (L\<lparr>uc_trace := c\<rparr>) = block_at L"
  "block_at (L\<lparr>hook_log := h\<rparr>) = block_at L"
  by (simp_all add: fun_eq_iff block_at_def)

lemma peek_engine_frame [simp]:
  "peek_engine (L\<lparr>stack := s\<rparr>) = peek_engine L"
  "peek_engine (L\<lparr>tables := t\<rparr>) = peek_engine L"
  "peek_engine (L\<lparr>reg_refs := r\<rparr>) = peek_engine L"
  "peek_engine (L\<lparr>uc_trace := c\<rparr>) = peek_engine L"
  "peek_engine (L\<lparr>hook_log := h\<rparr>) = peek_engine L"
  by (simp_all add: fun_eq_iff peek_engine_def)

lemma engine_of_frame [simp]:
  "engine_of (L\<lparr>stack := s\<rparr>) = engine_of L"
  "engine_of (L\<lparr>tables := t\<rparr>) = engine_of L"
  "engine_of (L\<lparr>reg_refs := r\<rparr>) = engine_of L"
  "engine_of (L\<lparr>uc_trace := c\<rparr>) = engine_of L"
  "engine_of (L\<lparr>hook_log := h\<rparr>) = engine_of L"
  "hook_table_ref_of (L\<lparr>stack := s\<rparr>) = hook_table_ref_of L"
  "hook_table_ref_of (L\<lparr>tables := t\<rparr>) = hook_table_ref_of L"
  "hook_table_ref_of (L\<lparr>reg_refs := r\<rparr>) = hook_table_ref_of L"
  "hook_table_ref_of (L\<lparr>uc_trace := c\<rparr>) = hook_table_ref_of L"
  "hook_table_ref_of (L\<lparr>hook_log := h\<rparr>) = hook_table_ref_of L"
  by (simp_all add: fun_eq_iff engine_of_def hook_table_ref_of_def split: option.splits)

lemma registry_frame [simp]:
  "registry_geti (L\<lparr>stack := s\<rparr>) = registry_geti L"
  "registry_geti (L\<lparr>tables := t\<rparr>) = registry_geti L"
  "registry_geti (L\<lparr>udata := u\<rparr>) = registry_geti L"
  "registry_geti (L\<lparr>uc_trace := c\<rparr>) = registry_geti L"
  "registry_geti (L\<lparr>hook_log := h\<rparr>) = registry_geti L"
  by (simp_all add: fun_eq_iff registry_geti_def)

lemma is_engine_object_frame [simp]:
  "is_engine_object (L\<lparr>stack := s\<rparr>) = is_engine_object L"
  "is_engine_object (L\<lparr>tables := t\<rparr>) = is_engine_object L"
  "is_engine_object (L\<lparr>reg_refs := r\<rparr>) = is_engine_object L"
  "is_engine_object (L\<lparr>uc_trace := c\<rparr>) = is_engine_object L"
  "is_engine_object (L\<lparr>hook_log := h\<rparr>) = is_engine_object L"
  by (simp_all add: fun_eq_iff is_engine_object_def split: option.splits)

lemma hook_del_step:
  assumes st: "stack L = S @ [t, k, v]" and S: "S \<noteq> []" "hd S = LUserdata w"
    and eb: "is_engine_object L w"
    and ref: "registry_geti L (hook_table_ref_of L w) = LTable n"
    and n: "n < length (tables L)"
  shows "ul_hook_del_by_indexes L 1 (- 2) =
     Return () (L\<lparr>hook_log := hook_log L @ [HookDel w k],
                  tables := (tables L)[n := table_set (table_slot L) (tables L ! n) k LNil]\<rparr>)"
proof -
  have a: "luaL_checkudata L 1 kEngineMetatableName = Return w L"
    using st S eb by (rule checkudata_engine)
  have "stack L = (S @ [t]) @ [k, v]" using st by simp
  then have b: "index2value L (- 2) = Some k" by (rule index2value_top2)
  show ?thesis
    using n by (simp add: ul_hook_del_by_indexes_def a b and_then_def Let_def ref table_at_def)
qed

lemma table_next_after:
  assumes "distinct (map fst (pre @ (k, v) # post))" "k \<noteq> LNil"
  shows "table_next (pre @ (k, v) # post) k = Some (first_live post)"
proof -
  have "k \<notin> fst ` set pre \<Longrightarrow> after_key (pre @ (k, v) # post) k = Some post" for pre
    by (induction pre) auto
  with assms show ?thesis by (simp add: table_next_def)
qed

lemma release_hooks_run:
  assumes "stack L = S @ [LTable n, key]" "S \<noteq> []" "hd S = LUserdata w" "is_engine_object L w"
    "registry_geti L (hook_table_ref_of L w) = LTable n" "n < length (tables L)"
    "tables L ! n = pre @ post" "distinct (map fst (pre @ post))" "LNil \<notin> fst ` set post"
    "table_next (pre @ post) key = Some (first_live post)"
  shows "release_hooks L 1 (int (length S) + 1) =
     Some (Return () (L\<lparr>stack := S @ [LTable n],
                        tables := (tables L)[n := pre @ cleared post],
                        hook_log := hook_log L @ map (HookDel w) (live_keys post)\<rparr>))"
  using assms
proof (induction post arbitrary: L pre key)
  case Nil
  have "(tables L)[n := pre] = tables L"
    using Nil.prems(6,7) by (metis append_Nil2 list_update_id)
  then show ?case
    using Nil.prems
    by (subst release_hooks.simps) (simp add: lua_next_step cleared_def live_keys_def)
next
  case (Cons kv post)
  obtain k v where kv: "kv = (k, v)" by (cases kv)
  show ?case
  proof (cases "v = LNil")
    case True
    have "release_hooks L 1 (int (length S) + 1) =
       Some (Return () (L\<lparr>stack := S @ [LTable n],
                        tables := (tables L)[n := (pre @ [kv]) @ cleared post],
                        hook_log := hook_log L @ map (HookDel w) (live_keys post)\<rparr>))"
      using Cons.prems True kv by (intro Cons.IH) simp_all
    then show ?thesis using True kv by (simp add: cleared_def live_keys_def)
  next
    case False
    let ?L1 = "L\<lparr>stack := S @ [LTable n, k, v]\<rparr>"
    let ?L3 = "L\<lparr>stack := S @ [LTable n, k], hook_log := hook_log L @ [HookDel w k],
                tables := (tables L)[n := (pre @ [(k, LNil)]) @ post]\<rparr>"
    have nxt: "lua_next L (int (length S) + 1) = Return 1 ?L1"
      using Cons.prems False kv by (simp add: lua_next_step)
    have "ul_hook_del_by_indexes ?L1 1 (- 2) =
       Return () (?L1\<lparr>hook_log := hook_log ?L1 @ [HookDel w k],
                  tables := (tables ?L1)[n := table_set (table_slot ?L1) (tables ?L1 ! n) k LNil]\<rparr>)"
      using Cons.prems by (intro hook_del_step[where S=S and t="LTable n" and v=v])
        simp_all
    moreover have "table_set (table_slot ?L1) (tables ?L1 ! n) k LNil = pre @ (k, LNil) # post"
      using Cons.prems kv by (simp add: table_set_clear)
    ultimately have del: "and_then (ul_hook_del_by_indexes ?L1 1 (- 2)) (\<lambda>_ L2. lua_pop L2 (Suc 0)) = Return () ?L3"
      by (simp add: and_then_def lua_pop_def)
    have "release_hooks ?L3 1 (int (length S) + 1) =
       Some (Return () (?L3\<lparr>stack := S @ [LTable n],
                        tables := (tables ?L3)[n := (pre @ [(k, LNil)]) @ cleared post],
                        hook_log := hook_log ?L3 @ map (HookDel w) (live_keys post)\<rparr>))"
    proof (intro Cons.IH)
      show "table_next ((pre @ [(k, LNil)]) @ post) k = Some (first_live post)"
        using Cons.prems kv table_next_after[of pre k LNil post] by auto
    qed (use Cons.prems kv in simp_all)
    then show ?thesis
      using False kv
      by (subst release_hooks.simps) (simp add: nxt del cleared_def live_keys_def)
  qed
qed

lemma poke_engine_object:
  assumes "is_engine_object L w"
  shows "poke_engine L w f =
     L\<lparr>udata := (udata L)[w - 1 := (udata L ! (w - 1))\<lparr>contents := EngineMem (f \<lparr>engine = engine_of L w, hook_table_ref = hook_table_ref_of L w\<rparr>)\<rparr>]\<rparr>"
proof -
  obtain eo where eo: "peek_engine L w = Some eo"
    using assms by (auto simp: is_engine_object_def peek_engine_def split: option.splits memory.splits)
  then show ?thesis
    by (cases eo) (simp add: poke_engine_def engine_of_def hook_table_ref_of_def)
qed

lemma is_engine_object_range: "is_engine_object L w \<Longrightarrow> Suc 0 \<le> w \<and> w \<le> length (udata L)"
  by (simp add: is_engine_object_def block_at_def split: if_splits)

lemma engine_of_written [simp]:
  assumes "Suc 0 \<le> w" "w \<le> length u"
  shows "engine_of (L\<lparr>udata := u[w - Suc 0 := b\<lparr>contents := EngineMem e\<rparr>]\<rparr>) w = engine e"
    and "hook_table_ref_of (L\<lparr>udata := u[w - Suc 0 := b\<lparr>contents := EngineMem e\<rparr>]\<rparr>) w = hook_table_ref e"
    and "is_engine_object (L\<lparr>udata := u[w - Suc 0 := b\<lparr>contents := EngineMem e\<rparr>]\<rparr>) w =
           (metatable b \<noteq> None \<and> metatable b = reg_fields L kEngineMetatableName)"
  using assms by (simp_all add: engine_of_def hook_table_ref_of_def peek_engine_def block_at_def is_engine_object_def)

lemma registry_geti_range: "registry_geti L r \<noteq> LNil \<Longrightarrow> 1 \<le> r \<and> r \<le> int (length (reg_refs L))"
  by (simp add: registry_geti_def split: if_splits)

lemma free_engine_object_upto_close:
  assumes S: "stack L \<noteq> []" "hd (stack L) = LUserdata w"
    and eb: "is_engine_object L w" and op: "engine_of L w \<noteq> 0"
    and ref: "registry_geti L (hook_table_ref_of L w) = LTable n"
    and n: "n < length (tables L)" and pt: "proper_table (tables L ! n)"
  shows "ul_free_engine_object L 1 = Some (
     and_then (if status (uc_lib L (uc_trace L) (UcClose (engine_of L w))) \<noteq> UC_ERR_OK
               then ul_crash_on_error (hooks_released L w n) (status (uc_lib L (uc_trace L) (UcClose (engine_of L w))))
               else Return 0 (hooks_released L w n)) (\<lambda>_ L9.
       let L10 = lua_getfield_registry L9 kEnginePointerMapName;
           L11 = lua_pushlightuserdata L10 (engine_of L10 w);
           L12 = lua_pushnil L11 in
       and_then (lua_settable L12 (- 3)) (\<lambda>_ L13.
       and_then (lua_pop L13 1) (\<lambda>_ L14.
         Return () (poke_engine L14 w (\<lambda>eo. eo\<lparr>engine := 0\<rparr>))))))"
proof -
  let ?r = "hook_table_ref_of L w"
  let ?S = "stack L"
  let ?L3 = "L\<lparr>stack := ?S @ [LTable n, LNil]\<rparr>"
  let ?L4 = "?L3\<lparr>stack := ?S @ [LTable n],
                  tables := (tables ?L3)[n := [] @ cleared (tables L ! n)],
                  hook_log := hook_log ?L3 @ map (HookDel w) (live_keys (tables L ! n))\<rparr>"
  have chk: "luaL_checkudata L 1 kEngineMetatableName = Return w L"
    using S eb by (intro checkudata_engine[where S="?S" and T="[]"]) simp_all
  have L3: "lua_pushnil (lua_geti_registry L ?r) = ?L3"
    using S ref by (simp add: lua_pushnil_def lua_geti_registry_def lua_push_def)
  have idx: "lua_absindex (lua_geti_registry L ?r) (- 1) = int (length ?S) + 1"
    using S by (simp add: lua_absindex_def lua_gettop_def lua_geti_registry_def lua_push_def)
  have loop: "release_hooks ?L3 1 (int (length ?S) + 1) = Some (Return () ?L4)"
    using S eb ref n pt
    by (intro release_hooks_run[where key=LNil]) (simp_all add: proper_table_def table_next_def)
  have rng: "1 \<le> ?r \<and> ?r \<le> int (length (reg_refs L))"
    using ref by (intro registry_geti_range) simp
  have abs1: "lua_absindex L 1 = 1" by (simp add: lua_absindex_def)
  have pop: "lua_pop ?L4 1 = Return () (?L4\<lparr>stack := ?S\<rparr>)"
    by (simp add: lua_pop_def)
  show ?thesis
    unfolding ul_free_engine_object_def Let_def abs1 chk outcome.case L3 idx loop option.case pop
    using rng eb is_engine_object_range[OF eb] op
    apply (simp add: and_then_def luaL_unref_registry_def poke_engine_object uc_invoke_def hooks_released_def)
    done
qed

lemma free_engine_object_failure:
  assumes "stack L \<noteq> []" "hd (stack L) = LUserdata w" "is_engine_object L w" "engine_of L w \<noteq> 0"
    "registry_geti L (hook_table_ref_of L w) = LTable n" "n < length (tables L)" "proper_table (tables L ! n)"
    "uc_close_status L (engine_of L w) \<noteq> UC_ERR_OK"
  shows "ul_free_engine_object L 1 =
     Some (Raise (NativeError (uc_close_status L (engine_of L w))) (hooks_released L w n))"
  using assms(8)
  by (simp add: free_engine_object_upto_close[OF assms(1-7)] uc_close_status_def ul_crash_on_error_def and_then_def)

lemma hooks_released_fields [simp]:
  "stack (hooks_released L w n) = stack L"
  "reg_fields (hooks_released L w n) = reg_fields L"
  "table_slot (hooks_released L w n) = table_slot L"
  "tables (hooks_released L w n) = (tables L)[n := cleared (tables L ! n)]"
  "hook_log (hooks_released L w n) = hook_log L @ map (HookDel w) (live_keys (tables L ! n))"
  "uc_trace (hooks_released L w n) = uc_trace L @ [UcClose (engine_of L w)]"
  "reg_refs (hooks_released L w n) = (reg_refs L)[nat (hook_table_ref_of L w - 1) := LNil]"
  by (simp_all add: hooks_released_def)

lemma hooks_released_engine:
  assumes "is_engine_object L w"
  shows "engine_of (hooks_released L w n) w = engine_of L w"
    and "hook_table_ref_of (hooks_released L w n) w = LUA_NOREF"
    and "is_engine_object (hooks_released L w n) w"
  using assms is_engine_object_range[OF assms]
  by (simp_all add: hooks_released_def) (auto simp add: is_engine_object_def block_at_def)

lemma free_engine_object_success:
  assumes "stack L \<noteq> []" "hd (stack L) = LUserdata w" "is_engine_object L w" "engine_of L w \<noteq> 0"
    "registry_geti L (hook_table_ref_of L w) = LTable n" "n < length (tables L)" "proper_table (tables L ! n)"
    "uc_close_status L (engine_of L w) = UC_ERR_OK" "pointer_map L m"
  shows "ul_free_engine_object L 1 = Some (Return () (engine_closed L w n m))"
proof -
  let ?H = "hooks_released L w n"
  let ?h = "engine_of L w"
  let ?L12 = "?H\<lparr>stack := stack L @ [LTable m, LLightUserdata ?h, LNil]\<rparr>"
  have L12: "lua_pushnil (lua_pushlightuserdata (lua_getfield_registry ?H kEnginePointerMapName)
               (engine_of (lua_getfield_registry ?H kEnginePointerMapName) w)) = ?L12"
    using assms(9) hooks_released_engine(1)[OF assms(3)]
    by (simp add: lua_pushnil_def lua_pushlightuserdata_def lua_getfield_registry_def lua_push_def pointer_map_def)
  have a: "index2value ?L12 (- 3) = Some (LTable m)" by (intro index2value_top3) simp
  have "stack ?L12 = (stack L @ [LTable m]) @ [LLightUserdata ?h, LNil]" by simp
  then have b: "index2value ?L12 (- 2) = Some (LLightUserdata ?h)" by (rule index2value_top2)
  have "stack ?L12 = (stack L @ [LTable m, LLightUserdata ?h]) @ [LNil]" by simp
  then have c: "index2value ?L12 (- 1) = Some LNil" by (rule index2value_top)
  have set: "lua_settable ?L12 (- 3) = Return () (?H\<lparr>stack := stack L @ [LTable m],
      tables := (tables ?H)[m := table_set (table_slot L) (tables ?H ! m) (LLightUserdata ?h) LNil]\<rparr>)"
    using assms(9)
    by (simp add: lua_settable_def a b c lua_pop_def and_then_def table_at_def pointer_map_def)
  have lt: "w - Suc 0 < length (udata L)"
    using is_engine_object_range[OF assms(3)] by arith
  show ?thesis
    using assms(8) assms(3) is_engine_object_range[OF assms(3)] hooks_released_engine[OF assms(3), of n] lt
    apply (simp add: free_engine_object_upto_close[OF assms(1-7)] uc_close_status_def and_then_def Let_def L12
      set lua_pop_def poke_engine_object)
    apply (simp add: engine_closed_def hooks_released_def Let_def)
    done
qed

lemma live_keys_cleared [simp]: "live_keys (cleared t) = []"
  by (induction t) (auto simp: live_keys_def cleared_def)

lemma hooks_released_ref_free:
  assumes "registry_geti L (hook_table_ref_of L w) = LTable n"
  shows "registry_geti (hooks_released L w n) (hook_table_ref_of L w) = LNil"
proof -
  have "1 \<le> hook_table_ref_of L w \<and> hook_table_ref_of L w \<le> int (length (reg_refs L))"
    using assms by (intro registry_geti_range) simp
  then show ?thesis
    by (auto simp add: registry_geti_def intro!: nth_list_update_eq)
qed

lemma registry_geti_noref [simp]: "registry_geti L LUA_NOREF = LNil"
  by (simp add: registry_geti_def LUA_NOREF_def)

lemma sample_state_open:
  "called_on (sample_state s) 1" "is_open (sample_state s) 1" "has_hook_table (sample_state s) 1 1"
  "pointer_map (sample_state s) 0" "engine_of (sample_state s) 1 = 7"
  "uc_close_status (sample_state s) 7 = s"
  by (simp_all add: sample_state_def called_on_def is_open_def is_engine_object_def block_at_def
      engine_of_def peek_engine_def has_hook_table_def registry_geti_def hook_table_ref_of_def
      proper_table_def pointer_map_def sample_fields_def uc_close_status_def sample_lib_def
      kEngineMetatableName_def kEnginePointerMapName_def)

lemma close_failure:
  assumes "called_on L w" "is_open L w" "has_hook_table L w n"
    and "uc_close_status L (engine_of L w) \<noteq> UC_ERR_OK"
  shows "ul_close L = Some (Raise (NativeError (uc_close_status L (engine_of L w))) (hooks_released L w n))"
  using assms free_engine_object_failure[of L w n]
  by (simp add: ul_close_def called_on_def is_open_def has_hook_table_def)

lemma close_success:
  assumes "called_on L w" "is_open L w" "has_hook_table L w n" "pointer_map L m"
    and "uc_close_status L (engine_of L w) = UC_ERR_OK"
  shows "ul_close L = Some (Return 0 (engine_closed L w n m))"
  using assms free_engine_object_success[of L w n m]
  by (simp add: ul_close_def called_on_def is_open_def has_hook_table_def)

lemma close_closed:
  assumes "called_on L w" "is_closed L w"
  shows "ul_close L = Some (Return 0 L)"
proof -
  have "luaL_checkudata L 1 kEngineMetatableName = Return w L"
    using assms by (intro checkudata_engine[where S="stack L" and T="[]"]) (simp_all add: called_on_def is_closed_def)
  then show ?thesis
    using assms by (simp add: ul_close_def ul_free_engine_object_def lua_absindex_def is_closed_def)
qed

lemma table_get_set_nil [simp]: "table_get (table_set slot t k LNil) k = LNil"
proof -
  have "map_of (map (\<lambda>(k', v'). if k' = k then (k', LNil) else (k', v')) t) k = Some LNil"
    if "k \<in> fst ` set t" using that by (induction t) auto
  then show ?thesis
    by (auto simp: table_set_def table_get_def map_of_eq_None_iff[THEN iffD2] split: option.splits)
qed

lemma live_keys_set_nil:
  assumes "live_keys t = []"
  shows "live_keys (table_set slot t k LNil) = []"
proof -
  have "live_keys (map (\<lambda>(k', v'). if k' = k then (k', LNil) else (k', v')) t) = []"
    using assms by (induction t) (auto simp: live_keys_def split: if_splits)
  then show ?thesis using assms by (simp add: table_set_def)
qed

lemma engine_closed_fields [simp]:
  "stack (engine_closed L w n m) = stack L"
  "reg_fields (engine_closed L w n m) = reg_fields L"
  "hook_log (engine_closed L w n m) = hook_log L @ map (HookDel w) (live_keys (tables L ! n))"
  "uc_trace (engine_closed L w n m) = uc_trace L @ [UcClose (engine_of L w)]"
  "reg_refs (engine_closed L w n m) = (reg_refs L)[nat (hook_table_ref_of L w - 1) := LNil]"
  "length (tables (engine_closed L w n m)) = length (tables L)"
  by (simp_all add: engine_closed_def Let_def)

lemma engine_closed_engine:
  assumes "is_engine_object L w"
  shows "engine_of (engine_closed L w n m) w = 0"
    and "hook_table_ref_of (engine_closed L w n m) w = LUA_NOREF"
    and "is_engine_object (engine_closed L w n m) w"
  using assms is_engine_object_range[OF assms]
  by (simp_all add: engine_closed_def Let_def hooks_released_def)
    (auto simp add: is_engine_object_def block_at_def)

lemma engine_closed_tables:
  assumes "n < length (tables L)" "m < length (tables L)"
  shows "live_keys (tables (engine_closed L w n m) ! n) = []"
    and "table_get (tables (engine_closed L w n m) ! m) (LLightUserdata (engine_of L w)) = LNil"
  using assms
  by (auto simp add: engine_closed_def Let_def nth_list_update live_keys_set_nil)

lemma toengine_closed:
  assumes "index2value L i = Some (LUserdata w)" "is_closed L w"
  shows "ul_toengine L i = Raise ClosedEngine L"
  using assms
  by (auto simp: ul_toengine_def luaL_checkudata_def is_closed_def is_engine_object_def and_then_def
      split: option.splits)

lemma toengine_open:
  assumes "index2value L i = Some (LUserdata w)" "is_open L w"
  shows "ul_toengine L i = Return (engine_of L w) L"
  using assms
  by (auto simp: ul_toengine_def luaL_checkudata_def is_open_def is_engine_object_def and_then_def
      split: option.splits)

lemma called_on_index: "called_on L w \<Longrightarrow> index2value L 1 = Some (LUserdata w)"
  using index2value_1[of L "stack L" "[]"] by (simp add: called_on_def)

lemma operations_closed:
  assumes "ul_toengine L 1 = Raise ClosedEngine L"
  shows "ul_context_alloc L = Raise ClosedEngine L" "ul_context_save L = Raise ClosedEngine L"
    "ul_context_restore L = Raise ClosedEngine L" "ul_query L = Raise ClosedEngine L"
    "ul_errno L = Raise ClosedEngine L" "ul_emu_start L = Raise ClosedEngine L"
    "ul_emu_stop L = Raise ClosedEngine L"
  using assms
  by (simp_all add: ul_context_alloc_def ul_context_save_def ul_context_restore_def ul_query_def
      ul_errno_def ul_emu_start_def ul_emu_stop_def and_then_def)

lemma get_engine_object_table:
  assumes "pointer_map L m"
  shows "ul_get_engine_object L p =
     (if table_get (tables L ! m) (LLightUserdata p) = LNil then Raise (NoEngineObject p) L
      else Return () (L\<lparr>stack := stack L @ [table_get (tables L ! m) (LLightUserdata p)]\<rparr>))"
proof -
  let ?L2 = "L\<lparr>stack := stack L @ [LTable m, LLightUserdata p]\<rparr>"
  let ?v = "table_get (tables L ! m) (LLightUserdata p)"
  let ?L3 = "L\<lparr>stack := stack L @ [LTable m, ?v]\<rparr>"
  have L2: "lua_pushlightuserdata (lua_getfield_registry L kEnginePointerMapName) p = ?L2"
    using assms by (simp add: lua_pushlightuserdata_def lua_getfield_registry_def lua_push_def pointer_map_def)
  have a: "index2value ?L2 (- 2) = Some (LTable m)" by (intro index2value_top2) simp
  have "stack ?L2 = (stack L @ [LTable m]) @ [LLightUserdata p]" by simp
  then have b: "index2value ?L2 (- 1) = Some (LLightUserdata p)" by (rule index2value_top)
  have get: "lua_gettable ?L2 (- 2) = Return () ?L3"
    using assms by (simp add: lua_gettable_def a b lua_pop_def and_then_def table_at_def pointer_map_def lua_push_def)
  have "stack ?L3 = (stack L @ [LTable m]) @ [?v]" by simp
  then have top: "index2value ?L3 (- 1) = Some ?v" by (rule index2value_top)
  have pop: "lua_pop (L\<lparr>stack := stack L @ [a, b]\<rparr>) 2 = Return () L" for a b
    by (simp add: lua_pop_def)
  have "nat (int (length (stack L)) + 1) = Suc (length (stack L))" by arith
  then have rem: "lua_remove ?L3 (- 2) = Return () (L\<lparr>stack := stack L @ [?v]\<rparr>)"
    by (simp add: lua_remove_def lua_absindex_def lua_gettop_def)
  show ?thesis
    by (simp add: ul_get_engine_object_def Let_def L2 get and_then_def lua_isnil_def top pop rem)
qed

lemma registry_slot_freed:
  assumes "registry_geti L r = LTable n" "reg_refs L' = (reg_refs L)[nat (r - 1) := LNil]"
  shows "registry_geti L' r = LNil"
proof -
  have "1 \<le> r \<and> r \<le> int (length (reg_refs L))"
    using assms(1) by (intro registry_geti_range) simp
  then show ?thesis
    using assms(2) by (auto simp add: registry_geti_def intro!: nth_list_update_eq)
qed

lemma close_return_cases:
  assumes "called_on L w" "is_open L w" "has_hook_table L w n" "pointer_map L m"
    and "ul_close L = Some (Return r L')"
  shows "L' = engine_closed L w n m \<and> uc_close_status L (engine_of L w) = UC_ERR_OK"
proof (cases "uc_close_status L (engine_of L w) = UC_ERR_OK")
  case True
  then show ?thesis using close_success[OF assms(1-4)] assms(5) by simp
next
  case False
  then show ?thesis using close_failure[OF assms(1-3)] assms(5) by simp
qed

lemma engine_closed_is_closed:
  assumes "called_on L w" "is_open L w" "pointer_map L m"
  shows "called_on (engine_closed L w n m) w" "is_closed (engine_closed L w n m) w"
    "pointer_map (engine_closed L w n m) m"
  using assms engine_closed_engine[of L w n m]
  by (simp_all add: called_on_def is_closed_def is_open_def pointer_map_def)

lemma close_calls_closed:
  assumes "called_on L w" "is_closed L w"
  shows "close_calls k L = Some (Return 0 L)"
  by (induction k) (simp_all add: close_closed[OF assms])

lemma table_get_set_same: "table_get (table_set slot t k v) k = v"
proof (cases "k \<in> fst ` set t")
  case True
  then have "map_of (map (\<lambda>(k', v'). if k' = k then (k', v) else (k', v')) t) k = Some v"
    by (induction t) auto
  with True show ?thesis by (simp add: table_set_def table_get_def)
next
  case False
  then have a: "map_of t k = None" by (simp add: map_of_eq_None_iff)
  have "k \<notin> fst ` set (take n t)" for n using False by (auto dest: in_set_takeD)
  then have b: "map_of (take n t) k = None" for n by (simp add: map_of_eq_None_iff)
  show ?thesis
    using False a b by (simp add: table_set_def table_get_def map_add_def)
qed

text \<open>
  A store keeps a table proper, so every table built from the empty one is proper.
\<close>

lemma table_set_proper:
  assumes "proper_table t" "k \<noteq> LNil"
  shows "proper_table (table_set slot t k v)"
proof (cases "k \<in> fst ` set t")
  case True
  have "(fst \<circ> (\<lambda>(k', v'). if k' = k then (k', v) else (k', v'))) = fst"
    by (auto simp: fun_eq_iff)
  with True assms show ?thesis by (simp add: table_set_def proper_table_def)
next
  case False
  let ?n = "slot t k"
  have d: "distinct (map fst (take ?n t) @ map fst (drop ?n t))"
    using assms(1) by (simp add: proper_table_def flip: map_append)
  have nl: "LNil \<notin> fst ` set (take ?n t)" "LNil \<notin> fst ` set (drop ?n t)"
    using assms(1) by (auto simp: proper_table_def dest: in_set_takeD in_set_dropD)
  have nk: "k \<notin> fst ` set (take ?n t)" "k \<notin> fst ` set (drop ?n t)"
    using False by (auto dest: in_set_takeD in_set_dropD)
  show ?thesis
  proof (cases "v = LNil")
    case True
    with False assms(1) show ?thesis by (simp add: table_set_def)
  next
    case v: False
    with False assms(2) d nl nk show ?thesis
      by (auto simp add: table_set_def proper_table_def)
  qed
qed

lemma create_engine_object_result:
  assumes "pointer_map L m"
  shows "ul_create_engine_object L p = Return () (engine_created L p m)"
proof -
  let ?w = "Suc (length (udata L))"
  let ?b = "\<lparr>contents = EngineMem \<lparr>engine = junk_ptr L, hook_table_ref = junk_int L\<rparr>, metatable = None\<rparr>"
  let ?L1 = "L\<lparr>udata := udata L @ [?b], stack := stack L @ [LUserdata ?w]\<rparr>"
  have new: "lua_newuserdata L (EngineMem \<lparr>engine = junk_ptr L, hook_table_ref = junk_int L\<rparr>) = Return ?w ?L1"
    by (simp add: lua_newuserdata_def lua_push_def)
  let ?b2 = "\<lparr>contents = EngineMem \<lparr>engine = p, hook_table_ref = junk_int L\<rparr>, metatable = None\<rparr>"
  let ?L2 = "L\<lparr>udata := udata L @ [?b2], stack := stack L @ [LUserdata ?w]\<rparr>"
  have poke1: "poke_engine ?L1 ?w (\<lambda>eo. eo\<lparr>engine := p\<rparr>) = ?L2"
    by (simp add: poke_engine_def peek_engine_def block_at_def)
  let ?b3 = "\<lparr>contents = EngineMem \<lparr>engine = p, hook_table_ref = junk_int L\<rparr>,
               metatable = reg_fields L kEngineMetatableName\<rparr>"
  let ?L3 = "L\<lparr>udata := udata L @ [?b3], stack := stack L @ [LUserdata ?w]\<rparr>"
  have "index2value ?L2 (- 1) = Some (LUserdata ?w)" by (intro index2value_top) simp
  then have meta: "luaL_setmetatable ?L2 kEngineMetatableName = Return () ?L3"
    by (simp add: luaL_setmetatable_def block_at_def)
  let ?L6 = "?L3\<lparr>stack := stack L @ [LUserdata ?w, LTable m, LLightUserdata p, LUserdata ?w]\<rparr>"
  let ?L5 = "lua_pushlightuserdata (lua_getfield_registry ?L3 kEnginePointerMapName) p"
  have L5: "?L5 = ?L3\<lparr>stack := stack L @ [LUserdata ?w, LTable m, LLightUserdata p]\<rparr>"
    using assms by (simp add: lua_pushlightuserdata_def lua_getfield_registry_def lua_push_def pointer_map_def)
  have "index2value (?L3\<lparr>stack := stack L @ [LUserdata ?w, LTable m, LLightUserdata p]\<rparr>) (- 3) = Some (LUserdata ?w)"
    by (intro index2value_top3) simp
  then have pv: "lua_pushvalue ?L5 (- 3) = Return () ?L6"
    unfolding L5 by (simp add: lua_pushvalue_def lua_push_def)
  have "stack ?L6 = (stack L @ [LUserdata ?w]) @ [LTable m, LLightUserdata p, LUserdata ?w]" by simp
  then have a: "index2value ?L6 (- 3) = Some (LTable m)" by (rule index2value_top3)
  have "stack ?L6 = (stack L @ [LUserdata ?w, LTable m]) @ [LLightUserdata p, LUserdata ?w]" by simp
  then have b: "index2value ?L6 (- 2) = Some (LLightUserdata p)" by (rule index2value_top2)
  have "stack ?L6 = (stack L @ [LUserdata ?w, LTable m, LLightUserdata p]) @ [LUserdata ?w]" by simp
  then have c: "index2value ?L6 (- 1) = Some (LUserdata ?w)" by (rule index2value_top)
  let ?T = "(tables L)[m := table_set (table_slot L) (tables L ! m) (LLightUserdata p) (LUserdata ?w)]"
  let ?L7 = "?L3\<lparr>stack := stack L @ [LUserdata ?w, LTable m], tables := ?T\<rparr>"
  have set: "lua_settable ?L6 (- 3) = Return () ?L7"
    using assms a b c
    by (simp add: lua_settable_def lua_pop_def and_then_def table_at_def pointer_map_def)
  let ?L8 = "?L3\<lparr>stack := stack L @ [LUserdata ?w], tables := ?T\<rparr>"
  have pop: "lua_pop ?L7 1 = Return () ?L8" by (simp add: lua_pop_def)
  let ?L9 = "?L3\<lparr>stack := stack L @ [LUserdata ?w, LTable (length (tables L))], tables := ?T @ [[]]\<rparr>"
  have nt: "lua_newtable ?L8 = ?L9" by (simp add: lua_newtable_def lua_push_def)
  let ?L10 = "?L3\<lparr>stack := stack L @ [LUserdata ?w], tables := ?T @ [[]],
                   reg_refs := reg_refs L @ [LTable (length (tables L))]\<rparr>"
  have "stack ?L9 = (stack L @ [LUserdata ?w]) @ [LTable (length (tables L))]" by simp
  then have "index2value ?L9 (- 1) = Some (LTable (length (tables L)))" by (rule index2value_top)
  then have rf: "luaL_ref_registry ?L9 = Return (int (length (reg_refs L)) + 1) ?L10"
    by (simp add: luaL_ref_registry_def lua_pop_def and_then_def)
  have poke2: "poke_engine ?L10 ?w (\<lambda>eo. eo\<lparr>hook_table_ref := int (length (reg_refs L)) + 1\<rparr>) = engine_created L p m"
    by (simp add: poke_engine_def peek_engine_def block_at_def engine_created_def)
  show ?thesis
    unfolding ul_create_engine_object_def
    using new poke1 meta pv set pop nt rf poke2
    by (simp add: and_then_def Let_def)
qed

lemma created_wrapper_well_formed:
  assumes "pointer_map L m" "h \<noteq> 0" "reg_fields L kEngineMetatableName \<noteq> None"
  shows "is_open (engine_created L h m) (Suc (length (udata L)))"
    and "has_hook_table (engine_created L h m) (Suc (length (udata L))) (length (tables L))"
    and "pointer_map (engine_created L h m) m"
    and "live_keys (tables (engine_created L h m) ! length (tables L)) = []"
  using assms
  by (simp_all add: engine_created_def is_open_def is_engine_object_def block_at_def engine_of_def
      peek_engine_def has_hook_table_def hook_table_ref_of_def registry_geti_def proper_table_def
      pointer_map_def live_keys_def nth_append)

lemma context_alloc_result:
  assumes "index2value L 1 = Some (LUserdata w)" "is_open L w"
  shows "ul_context_alloc L =
     (if uc_status L [] (UcContextAlloc (engine_of L w)) \<noteq> UC_ERR_OK
      then Raise (NativeError (uc_status L [] (UcContextAlloc (engine_of L w)))) (snapshot_allocated L (engine_of L w))
      else Return 1 (snapshot_allocated L (engine_of L w)))"
proof -
  let ?s = "Suc (length (udata L))"
  let ?L2 = "L\<lparr>udata := udata L @ [\<lparr>contents = ContextMem (junk_ptr L), metatable = None\<rparr>],
               stack := stack L @ [LUserdata ?s]\<rparr>"
  let ?L3 = "L\<lparr>udata := udata L @ [\<lparr>contents = ContextMem (junk_ptr L),
                                   metatable = reg_fields L kContextMetatableName\<rparr>],
               stack := stack L @ [LUserdata ?s]\<rparr>"
  have te: "ul_toengine L 1 = Return (engine_of L w) L" using assms by (rule toengine_open)
  have new: "lua_newuserdata L (ContextMem (junk_ptr L)) = Return ?s ?L2"
    by (simp add: lua_newuserdata_def lua_push_def)
  have "index2value ?L2 (- 1) = Some (LUserdata ?s)" by (intro index2value_top) simp
  then have meta: "luaL_setmetatable ?L2 kContextMetatableName = Return () ?L3"
    by (simp add: luaL_setmetatable_def block_at_def)
  show ?thesis
    using te new meta
    by (simp add: ul_context_alloc_def and_then_def uc_invoke_def Let_def ul_crash_on_error_def
        uc_status_def snapshot_allocated_def)
qed

lemma tocontext_result:
  assumes "index2value L i = Some (LUserdata s)" "is_context_object L s"
  shows "ul_tocontext L i = Return (context_of L s) L"
  using assms
  by (auto simp: ul_tocontext_def luaL_checkudata_def is_context_object_def and_then_def split: option.splits)

lemma snapshot_allocated_facts:
  "stack (snapshot_allocated L h) = stack L @ [LUserdata (Suc (length (udata L)))]"
  "is_context_object (snapshot_allocated L h) (Suc (length (udata L))) =
     (reg_fields L kContextMetatableName \<noteq> None)"
  "context_of (snapshot_allocated L h) (Suc (length (udata L))) = junk_ptr L"
  "uc_trace (snapshot_allocated L h) = uc_trace L @ [UcContextAlloc h]"
  "uc_lib (snapshot_allocated L h) = uc_lib L"
  "block_at L (Suc (length (udata L))) = None"
  by (simp_all add: snapshot_allocated_def is_context_object_def block_at_def context_of_def peek_context_def)

lemma context_save_new:
  assumes "stack L = [LUserdata w]" "is_open L w"
    and "uc_status L [] (UcContextAlloc (engine_of L w)) = UC_ERR_OK"
    and "uc_status L [UcContextAlloc (engine_of L w)] (UcContextSave (engine_of L w) (junk_ptr L)) = UC_ERR_OK"
    and "reg_fields L kContextMetatableName \<noteq> None"
  shows "ul_context_save L =
     Return 1 ((snapshot_allocated L (engine_of L w))\<lparr>uc_trace := uc_trace L @
        [UcContextAlloc (engine_of L w), UcContextSave (engine_of L w) (junk_ptr L)]\<rparr>)"
proof -
  let ?h = "engine_of L w"
  let ?A = "snapshot_allocated L ?h"
  have i1: "index2value L 1 = Some (LUserdata w)"
    using assms(1) by (simp add: index2value_def lua_absindex_def lua_gettop_def)
  have te: "ul_toengine L 1 = Return ?h L" using i1 assms(2) by (rule toengine_open)
  have al: "ul_context_alloc L = Return 1 ?A"
    using context_alloc_result[OF i1 assms(2)] assms(3) by simp
  have "index2value ?A 2 = Some (LUserdata (Suc (length (udata L))))"
    using assms(1) by (simp add: index2value_def lua_absindex_def lua_gettop_def snapshot_allocated_facts)
  then have tc: "ul_tocontext ?A 2 = Return (junk_ptr L) ?A"
    using tocontext_result[of ?A 2 "Suc (length (udata L))"] assms(5)
    by (simp add: snapshot_allocated_facts)
  show ?thesis
    using assms(1,4) te al tc
    by (simp add: ul_context_save_def and_then_def lua_gettop_def uc_invoke_def uc_status_def
        snapshot_allocated_facts)
qed

lemma context_save_given:
  assumes "stack L = [LUserdata w, LUserdata s]" "is_open L w" "is_context_object L s"
    and "uc_status L [] (UcContextSave (engine_of L w) (context_of L s)) = UC_ERR_OK"
  shows "ul_context_save L =
     Return 1 (L\<lparr>uc_trace := uc_trace L @ [UcContextSave (engine_of L w) (context_of L s)]\<rparr>)"
proof -
  have i1: "index2value L 1 = Some (LUserdata w)" and i2: "index2value L 2 = Some (LUserdata s)"
    using assms(1) by (simp_all add: index2value_def lua_absindex_def lua_gettop_def)
  have te: "ul_toengine L 1 = Return (engine_of L w) L" using i1 assms(2) by (rule toengine_open)
  have tc: "ul_tocontext L 2 = Return (context_of L s) L" using i2 assms(3) by (rule tocontext_result)
  show ?thesis
    using assms(1,4) te tc
    by (simp add: ul_context_save_def and_then_def lua_gettop_def uc_invoke_def uc_status_def)
qed

lemma query_raises: "\<exists>e. ul_query L = Raise e L"
proof (cases "ul_toengine L 1")
  case (Return h L1)
  then obtain u where u: "index2value L 1 = Some (LUserdata u)" and L1: "L1 = L"
    by (auto simp: ul_toengine_def luaL_checkudata_def and_then_def
        split: option.splits lua_value.splits if_splits)
  then show ?thesis
    using Return by (simp add: ul_query_def and_then_def luaL_checkinteger_def)
next
  case (Raise e L1)
  then have "L1 = L"
    by (auto simp: ul_toengine_def luaL_checkudata_def and_then_def
        split: option.splits lua_value.splits if_splits)
  then show ?thesis using Raise by (simp add: ul_query_def and_then_def)
qed

lemma methods_bound_to_close:
  "map_of kEngineMetamethods ''__gc'' = Some ul_close"
  "map_of (kEngineInstanceMethods other) ''close'' = Some ul_close"
  by (simp_all add: kEngineMetamethods_def kEngineInstanceMethods_def)

lemma hashed_table:
  "table_insert_all hashed_slot
     [(LLightUserdata 4112, LLightUserdata 101), (LLightUserdata 4096, LLightUserdata 102),
      (LLightUserdata 4128, LLightUserdata 103)] =
   [(LLightUserdata 4128, LLightUserdata 103), (LLightUserdata 4096, LLightUserdata 102),
    (LLightUserdata 4112, LLightUserdata 101)]"
  by (simp add: table_insert_all_def table_set_def hashed_slot_def address_hash_def)

lemma hashed_state_open:
  "called_on hashed_state 1" "is_open hashed_state 1" "has_hook_table hashed_state 1 1"
  "pointer_map hashed_state 0" "engine_of hashed_state 1 = 7"
  "uc_close_status hashed_state 7 = UC_ERR_OK"
  "live_keys (tables hashed_state ! 1) = [LLightUserdata 4128, LLightUserdata 4096, LLightUserdata 4112]"
  "hook_log hashed_state = []"
  by (simp_all add: hashed_state_def hashed_table sample_state_def called_on_def is_open_def
      is_engine_object_def block_at_def engine_of_def peek_engine_def has_hook_table_def
      registry_geti_def hook_table_ref_of_def proper_table_def pointer_map_def sample_fields_def
      uc_close_status_def sample_lib_def live_keys_def UC_ERR_OK_def
      kEngineMetatableName_def kEnginePointerMapName_def)

section \<open>Closing a wrapper\<close>

text \<open>
  C1. Close calls the native close once, whatever the number of close calls. The
  finalizer \<^verbatim>\<open>__gc\<close> and the method \<^verbatim>\<open>close\<close> are the same function \<^verbatim>\<open>ul_close\<close>.
  On an OPEN wrapper the first call calls \<^verbatim>\<open>uc_close\<close> on the handle exactly once, as
  its last call to the library. It returns when \<^verbatim>\<open>uc_close\<close> reports success, and when
  it has returned the wrapper is CLOSED. Every further call then returns with no
  result and leaves the state as it is, so the trace of the library calls keeps its
  single \<^verbatim>\<open>uc_close\<close>; the same holds for a close on any CLOSED wrapper.
\<close>

theorem close_invokes_native_close_once:
  assumes "called_on L w" "is_open L w" "has_hook_table L w n" "pointer_map L m"
  shows "map_of kEngineMetamethods ''__gc'' = Some ul_close \<and>
         map_of (kEngineInstanceMethods other) ''close'' = Some ul_close \<and>
         (\<exists>r. ul_close L = Some r \<and> uc_trace (state_of r) = uc_trace L @ [UcClose (engine_of L w)]) \<and>
         (uc_close_status L (engine_of L w) = UC_ERR_OK \<longrightarrow> (\<exists>L1. ul_close L = Some (Return 0 L1))) \<and>
         (\<forall>L1. ul_close L = Some (Return 0 L1) \<longrightarrow>
            is_closed L1 w \<and>
            uc_trace L1 = uc_trace L @ [UcClose (engine_of L w)] \<and>
            (\<forall>k. close_calls k L1 = Some (Return 0 L1)) \<and>
            (\<forall>k. close_calls (Suc k) L = Some (Return 0 L1))) \<and>
         (\<forall>L0 v. called_on L0 v \<and> is_closed L0 v \<longrightarrow> ul_close L0 = Some (Return 0 L0))"
proof (intro conjI allI impI)
  show "map_of kEngineMetamethods ''__gc'' = Some ul_close"
    "map_of (kEngineInstanceMethods other) ''close'' = Some ul_close"
    by (rule methods_bound_to_close)+
  show "\<exists>r. ul_close L = Some r \<and> uc_trace (state_of r) = uc_trace L @ [UcClose (engine_of L w)]"
    using close_success[OF assms] close_failure[OF assms(1-3)]
    by (cases "uc_close_status L (engine_of L w) = UC_ERR_OK") (simp_all add: state_of_def)
next
  assume "uc_close_status L (engine_of L w) = UC_ERR_OK"
  then show "\<exists>L1. ul_close L = Some (Return 0 L1)"
    using close_success[OF assms] by simp
next
  fix L1 assume ret: "ul_close L = Some (Return 0 L1)"
  then have L1: "L1 = engine_closed L w n m" using close_return_cases[OF assms] by simp
  show "is_closed L1 w" unfolding L1 using assms by (intro engine_closed_is_closed)
  show "uc_trace L1 = uc_trace L @ [UcClose (engine_of L w)]" unfolding L1 by simp
  have *: "close_calls k L1 = Some (Return 0 L1)" for k
    unfolding L1 using assms by (intro close_calls_closed[of _ w] engine_closed_is_closed)
  then show "close_calls k L1 = Some (Return 0 L1)" for k .
  show "close_calls (Suc k) L = Some (Return 0 L1)" for k
    using ret * by simp
next
  fix L0 v assume "called_on L0 v \<and> is_closed L0 v"
  then show "ul_close L0 = Some (Return 0 L0)" by (auto intro: close_closed)
qed

theorem close_invokes_native_close_once_witness:
  "called_on (sample_state 0) 1 \<and> is_open (sample_state 0) 1 \<and> has_hook_table (sample_state 0) 1 1 \<and>
   pointer_map (sample_state 0) 0 \<and>
   uc_close_status (sample_state 0) (engine_of (sample_state 0) 1) = UC_ERR_OK \<and>
   (\<exists>L1. ul_close (sample_state 0) = Some (Return 0 L1) \<and> is_closed L1 1 \<and>
      uc_trace L1 = [UcClose 7] \<and> close_calls (Suc 0) L1 = Some (Return 0 L1) \<and>
      close_calls (Suc 2) (sample_state 0) = Some (Return 0 L1))"
proof -
  have h: "uc_close_status (sample_state 0) (engine_of (sample_state 0) 1) = UC_ERR_OK"
    using sample_state_open(5,6)[of 0] by (simp add: UC_ERR_OK_def)
  have t: "uc_trace (sample_state 0) = []" by (simp add: sample_state_def)
  note T = close_invokes_native_close_once[OF sample_state_open(1-4), where other="\<lambda>name. ul_close"]
  from T h obtain L1 where r: "ul_close (sample_state 0) = Some (Return 0 L1)" by blast
  with T have c: "is_closed L1 1"
      "uc_trace L1 = uc_trace (sample_state 0) @ [UcClose (engine_of (sample_state 0) 1)]"
      "close_calls (Suc 0) L1 = Some (Return 0 L1)"
      "close_calls (Suc 2) (sample_state 0) = Some (Return 0 L1)"
    by blast+
  from r c h t sample_state_open[of 0] show ?thesis by auto
qed

text \<open>
  C2, as amended. Close calls the Hook Manager's delete once for every entry of the
  wrapper's hook table, in the order in which \<^verbatim>\<open>lua_next\<close> walks the table, and the
  table has no entry afterwards. The keys of a table are distinct, so no hook is
  deleted twice. The order is that of the table's traversal, which Lua does not
  tie to the order of insertion.
\<close>

theorem close_deletes_hooks_in_traversal_order:
  assumes "called_on L w" "is_open L w" "has_hook_table L w n" "pointer_map L m"
  shows "(uc_close_status L (engine_of L w) = UC_ERR_OK \<longrightarrow> (\<exists>L'. ul_close L = Some (Return 0 L'))) \<and>
         (\<forall>L'. ul_close L = Some (Return 0 L') \<longrightarrow>
            hook_log L' = hook_log L @ map (HookDel w) (live_keys (tables L ! n)) \<and>
            distinct (live_keys (tables L ! n)) \<and>
            live_keys (tables L' ! n) = [])"
proof (intro conjI allI impI)
  assume "uc_close_status L (engine_of L w) = UC_ERR_OK"
  then show "\<exists>L'. ul_close L = Some (Return 0 L')"
    using close_success[OF assms] by simp
next
  fix L' assume ret: "ul_close L = Some (Return 0 L')"
  then have L': "L' = engine_closed L w n m" using close_return_cases[OF assms] by simp
  have n: "n < length (tables L)" and d: "distinct (map fst (tables L ! n))"
    using assms(3) by (simp_all add: has_hook_table_def proper_table_def)
  have m: "m < length (tables L)" using assms(4) by (simp add: pointer_map_def)
  show "hook_log L' = hook_log L @ map (HookDel w) (live_keys (tables L ! n))"
    unfolding L' by simp
  show "distinct (live_keys (tables L ! n))"
    unfolding live_keys_def using d by (rule distinct_map_filter)
  show "live_keys (tables L' ! n) = []" unfolding L' using n m by (rule engine_closed_tables)
qed

theorem close_deletes_hooks_in_traversal_order_witness:
  "called_on (sample_state 0) 1 \<and> is_open (sample_state 0) 1 \<and> has_hook_table (sample_state 0) 1 1 \<and>
   pointer_map (sample_state 0) 0 \<and>
   uc_close_status (sample_state 0) (engine_of (sample_state 0) 1) = UC_ERR_OK \<and>
   (\<exists>L'. ul_close (sample_state 0) = Some (Return 0 L') \<and>
      hook_log L' = [HookDel 1 (LLightUserdata 11), HookDel 1 (LLightUserdata 12),
                     HookDel 1 (LLightUserdata 13)] \<and>
      live_keys (tables L' ! 1) = [])"
proof -
  have h: "uc_close_status (sample_state 0) (engine_of (sample_state 0) 1) = UC_ERR_OK"
    using sample_state_open(5,6)[of 0] by (simp add: UC_ERR_OK_def)
  have t: "hook_log (sample_state 0) = []"
    "live_keys (tables (sample_state 0) ! 1) = [LLightUserdata 11, LLightUserdata 12, LLightUserdata 13]"
    by (simp_all add: sample_state_def live_keys_def)
  note T = close_deletes_hooks_in_traversal_order[OF sample_state_open(1-4)]
  from T h obtain L' where r: "ul_close (sample_state 0) = Some (Return 0 L')" by blast
  with T have c: "hook_log L' = hook_log (sample_state 0) @
        map (HookDel 1) (live_keys (tables (sample_state 0) ! 1))"
      "live_keys (tables L' ! 1) = []"
    by blast+
  with r h t sample_state_open[of 0] show ?thesis by auto
qed

text \<open>
  C2, as stated, fails. In \<open>hashed_state\<close> the hook table was built by inserting the
  keys 4112, 4096, 4128 in this order into a table that orders its nodes by the
  address modulo 3. Close deletes the hooks 4128, 4096, 4112: the order of the
  traversal, which here is the reverse of the order of insertion.
\<close>

theorem hooks_deleted_against_insertion_order:
  "tables hashed_state ! 1 =
     table_insert_all (table_slot hashed_state)
       [(LLightUserdata 4112, LLightUserdata 101), (LLightUserdata 4096, LLightUserdata 102),
        (LLightUserdata 4128, LLightUserdata 103)] \<and>
   map_option (hook_log \<circ> state_of) (ul_close hashed_state) =
     Some [HookDel 1 (LLightUserdata 4128), HookDel 1 (LLightUserdata 4096),
           HookDel 1 (LLightUserdata 4112)] \<and>
   map_option (hook_log \<circ> state_of) (ul_close hashed_state) \<noteq>
     Some [HookDel 1 (LLightUserdata 4112), HookDel 1 (LLightUserdata 4096),
           HookDel 1 (LLightUserdata 4128)]"
proof -
  have "ul_close hashed_state = Some (Return 0 (engine_closed hashed_state 1 1 0))"
    using hashed_state_open by (intro close_success) simp_all
  then have "map_option (hook_log \<circ> state_of) (ul_close hashed_state) =
     Some [HookDel 1 (LLightUserdata 4128), HookDel 1 (LLightUserdata 4096),
           HookDel 1 (LLightUserdata 4112)]"
    using hashed_state_open(7,8) by (simp add: state_of_def)
  moreover have "tables hashed_state ! 1 =
     table_insert_all (table_slot hashed_state)
       [(LLightUserdata 4112, LLightUserdata 101), (LLightUserdata 4096, LLightUserdata 102),
        (LLightUserdata 4128, LLightUserdata 103)]"
    by (simp add: hashed_state_def)
  ultimately show ?thesis by auto
qed

text \<open>
  C3. For an OPEN wrapper \<^verbatim>\<open>ul_toengine\<close> returns the handle, which is not \<^verbatim>\<open>NULL\<close>,
  at every stack index that holds the wrapper.
  After a close that returned, \<^verbatim>\<open>ul_toengine\<close> raises the closed-engine error at every
  stack index that holds the wrapper, and so does every operation of engine.c that
  starts by resolving the handle.
\<close>

theorem closed_engine_is_rejected:
  assumes "called_on L w" "is_open L w" "has_hook_table L w n" "pointer_map L m"
  shows "ul_toengine L 1 = Return (engine_of L w) L \<and> engine_of L w \<noteq> 0 \<and>
         (\<forall>i. index2value L i = Some (LUserdata w) \<longrightarrow> ul_toengine L i = Return (engine_of L w) L) \<and>
         (uc_close_status L (engine_of L w) = UC_ERR_OK \<longrightarrow> (\<exists>L'. ul_close L = Some (Return 0 L'))) \<and>
         (\<forall>L'. ul_close L = Some (Return 0 L') \<longrightarrow>
            (\<forall>i. index2value L' i = Some (LUserdata w) \<longrightarrow> ul_toengine L' i = Raise ClosedEngine L') \<and>
            ul_toengine L' 1 = Raise ClosedEngine L' \<and>
            ul_context_alloc L' = Raise ClosedEngine L' \<and>
            ul_context_save L' = Raise ClosedEngine L' \<and>
            ul_context_restore L' = Raise ClosedEngine L' \<and>
            ul_query L' = Raise ClosedEngine L' \<and>
            ul_errno L' = Raise ClosedEngine L' \<and>
            ul_emu_start L' = Raise ClosedEngine L' \<and>
            ul_emu_stop L' = Raise ClosedEngine L')"
proof (intro conjI allI impI)
  show "ul_toengine L 1 = Return (engine_of L w) L"
    using called_on_index[OF assms(1)] assms(2) by (rule toengine_open)
  show "engine_of L w \<noteq> 0" using assms(2) by (simp add: is_open_def)
  show "ul_toengine L i = Return (engine_of L w) L" if "index2value L i = Some (LUserdata w)" for i
    using that assms(2) by (rule toengine_open)
next
  assume "uc_close_status L (engine_of L w) = UC_ERR_OK"
  then show "\<exists>L'. ul_close L = Some (Return 0 L')"
    using close_success[OF assms] by simp
next
  fix L' assume ret: "ul_close L = Some (Return 0 L')"
  then have L': "L' = engine_closed L w n m" using close_return_cases[OF assms] by simp
  have cl: "is_closed L' w" and co: "called_on L' w"
    unfolding L' using assms engine_closed_is_closed[of L w m n] by simp_all
  show "ul_toengine L' i = Raise ClosedEngine L'" if "index2value L' i = Some (LUserdata w)" for i
    using that cl by (rule toengine_closed)
  show t: "ul_toengine L' 1 = Raise ClosedEngine L'"
    using called_on_index[OF co] cl by (rule toengine_closed)
  show "ul_context_alloc L' = Raise ClosedEngine L'" "ul_context_save L' = Raise ClosedEngine L'"
    "ul_context_restore L' = Raise ClosedEngine L'" "ul_query L' = Raise ClosedEngine L'"
    "ul_errno L' = Raise ClosedEngine L'" "ul_emu_start L' = Raise ClosedEngine L'"
    "ul_emu_stop L' = Raise ClosedEngine L'"
    using t by (rule operations_closed)+
qed

theorem closed_engine_is_rejected_witness:
  "called_on (sample_state 0) 1 \<and> is_open (sample_state 0) 1 \<and> has_hook_table (sample_state 0) 1 1 \<and>
   pointer_map (sample_state 0) 0 \<and>
   uc_close_status (sample_state 0) (engine_of (sample_state 0) 1) = UC_ERR_OK \<and>
   ul_toengine (sample_state 0) 1 = Return 7 (sample_state 0) \<and>
   (\<exists>L'. ul_close (sample_state 0) = Some (Return 0 L') \<and>
      index2value L' 1 = Some (LUserdata 1) \<and>
      ul_toengine L' 1 = Raise ClosedEngine L' \<and> ul_errno L' = Raise ClosedEngine L')"
proof -
  have h: "uc_close_status (sample_state 0) (engine_of (sample_state 0) 1) = UC_ERR_OK"
    using sample_state_open(5,6)[of 0] by (simp add: UC_ERR_OK_def)
  note T = closed_engine_is_rejected[OF sample_state_open(1-4)]
  from T h obtain L' where r: "ul_close (sample_state 0) = Some (Return 0 L')" by blast
  with T have c: "ul_toengine L' 1 = Raise ClosedEngine L'" "ul_errno L' = Raise ClosedEngine L'"
    by blast+
  have "L' = engine_closed (sample_state 0) 1 1 0"
    using close_return_cases[OF sample_state_open(1-4) r] by simp
  then have "called_on L' 1"
    using engine_closed_is_closed(1)[OF sample_state_open(1,2,4), of 0 1] by simp
  then have "index2value L' 1 = Some (LUserdata 1)" by (rule called_on_index)
  moreover have "ul_toengine (sample_state 0) 1 = Return 7 (sample_state 0)"
    using T sample_state_open(5)[of 0] by simp
  ultimately show ?thesis using r c h sample_state_open[of 0] by auto
qed

text \<open>
  C4. A close of an OPEN wrapper that returns leaves the wrapper in the CLOSED
  state of invariant I3: the handle is \<^verbatim>\<open>NULL\<close>; the hook table has no entry, its
  reference was given back to the registry and the wrapper holds \<^verbatim>\<open>LUA_NOREF\<close>, which
  resolves to no table; the Handle Registry has no entry for the former handle, and
  a lookup of that handle raises the not-found error. The close returns whenever
  \<^verbatim>\<open>uc_close\<close> reports success.
\<close>

theorem close_establishes_closed_state:
  assumes "called_on L w" "is_open L w" "has_hook_table L w n" "pointer_map L m"
  shows "(uc_close_status L (engine_of L w) = UC_ERR_OK \<longrightarrow> (\<exists>L'. ul_close L = Some (Return 0 L'))) \<and>
         (\<forall>L'. ul_close L = Some (Return 0 L') \<longrightarrow>
            is_closed L' w \<and> engine_of L' w = 0 \<and>
            live_keys (tables L' ! n) = [] \<and>
            registry_geti L' (hook_table_ref_of L w) = LNil \<and>
            hook_table_ref_of L' w = LUA_NOREF \<and>
            registry_geti L' (hook_table_ref_of L' w) = LNil \<and>
            table_get (tables L' ! m) (LLightUserdata (engine_of L w)) = LNil \<and>
            ul_get_engine_object L' (engine_of L w) = Raise (NoEngineObject (engine_of L w)) L')"
proof (intro conjI allI impI)
  assume "uc_close_status L (engine_of L w) = UC_ERR_OK"
  then show "\<exists>L'. ul_close L = Some (Return 0 L')"
    using close_success[OF assms] by simp
next
  fix L' assume ret: "ul_close L = Some (Return 0 L')"
  then have L': "L' = engine_closed L w n m" using close_return_cases[OF assms] by simp
  have eo: "is_engine_object L w" using assms(2) by (simp add: is_open_def)
  have n: "n < length (tables L)" and ref: "registry_geti L (hook_table_ref_of L w) = LTable n"
    using assms(3) by (simp_all add: has_hook_table_def)
  have m: "m < length (tables L)" using assms(4) by (simp add: pointer_map_def)
  show "is_closed L' w" unfolding L' using assms by (intro engine_closed_is_closed)
  then show "engine_of L' w = 0" by (simp add: is_closed_def)
  show "live_keys (tables L' ! n) = []" unfolding L' using n m by (rule engine_closed_tables)
  have "reg_refs L' = (reg_refs L)[nat (hook_table_ref_of L w - 1) := LNil]" unfolding L' by simp
  with ref show "registry_geti L' (hook_table_ref_of L w) = LNil"
    by (rule registry_slot_freed)
  show nr: "hook_table_ref_of L' w = LUA_NOREF" unfolding L' using eo by (rule engine_closed_engine)
  show "registry_geti L' (hook_table_ref_of L' w) = LNil" by (simp add: nr)
  show tg: "table_get (tables L' ! m) (LLightUserdata (engine_of L w)) = LNil"
    unfolding L' using n m by (rule engine_closed_tables)
  have "pointer_map L' m" unfolding L' using assms by (intro engine_closed_is_closed)
  then show "ul_get_engine_object L' (engine_of L w) = Raise (NoEngineObject (engine_of L w)) L'"
    using tg by (simp add: get_engine_object_table)
qed

theorem close_establishes_closed_state_witness:
  "called_on (sample_state 0) 1 \<and> is_open (sample_state 0) 1 \<and> has_hook_table (sample_state 0) 1 1 \<and>
   pointer_map (sample_state 0) 0 \<and>
   uc_close_status (sample_state 0) (engine_of (sample_state 0) 1) = UC_ERR_OK \<and>
   table_get (tables (sample_state 0) ! 0) (LLightUserdata 7) = LUserdata 1 \<and>
   (\<exists>L'. ul_close (sample_state 0) = Some (Return 0 L') \<and>
      engine_of L' 1 = 0 \<and> live_keys (tables L' ! 1) = [] \<and>
      hook_table_ref_of L' 1 = LUA_NOREF \<and>
      table_get (tables L' ! 0) (LLightUserdata 7) = LNil \<and>
      ul_get_engine_object L' 7 = Raise (NoEngineObject 7) L')"
proof -
  have h: "uc_close_status (sample_state 0) (engine_of (sample_state 0) 1) = UC_ERR_OK"
    using sample_state_open(5,6)[of 0] by (simp add: UC_ERR_OK_def)
  have t: "table_get (tables (sample_state 0) ! 0) (LLightUserdata 7) = LUserdata 1"
    by (simp add: sample_state_def table_get_def)
  note T = close_establishes_closed_state[OF sample_state_open(1-4)]
  from T h obtain L' where r: "ul_close (sample_state 0) = Some (Return 0 L')" by blast
  with T have c: "engine_of L' 1 = 0" "live_keys (tables L' ! 1) = []"
      "hook_table_ref_of L' 1 = LUA_NOREF"
      "table_get (tables L' ! 0) (LLightUserdata (engine_of (sample_state 0) 1)) = LNil"
      "ul_get_engine_object L' (engine_of (sample_state 0) 1) =
         Raise (NoEngineObject (engine_of (sample_state 0) 1)) L'"
    by blast+
  with r h t sample_state_open[of 0] show ?thesis by auto
qed

section \<open>The Handle Registry\<close>

text \<open>
  C5. Once the library is initialised, creating the engine object for a handle \<open>h\<close>
  registers the new wrapper under \<open>h\<close>, and a lookup of \<open>h\<close> right after it pushes that
  wrapper. The new block is an engine object exactly when the engine metatable is
  registered, as \<^verbatim>\<open>ul_init_engines_lib\<close> leaves it. A lookup of a handle that has no
  entry raises the not-found error that carries the handle, and leaves the whole
  state, the registry included, as it was.
\<close>

theorem registry_round_trip:
  assumes "pointer_map L m"
  shows "(\<exists>L1. ul_create_engine_object L h = Return () L1 \<and>
            last (stack L1) = LUserdata (Suc (length (udata L))) \<and>
            block_at L (Suc (length (udata L))) = None \<and>
            is_engine_object L1 (Suc (length (udata L))) =
              (reg_fields L kEngineMetatableName \<noteq> None) \<and>
            engine_of L1 (Suc (length (udata L))) = h \<and>
            ul_get_engine_object L1 h =
              Return () (L1\<lparr>stack := stack L1 @ [LUserdata (Suc (length (udata L)))]\<rparr>)) \<and>
         (table_get (tables L ! m) (LLightUserdata q) = LNil \<longrightarrow>
            ul_get_engine_object L q = Raise (NoEngineObject q) L)"
proof (intro conjI impI)
  let ?w = "Suc (length (udata L))"
  let ?L1 = "engine_created L h m"
  have m: "m < length (tables L)" using assms by (simp add: pointer_map_def)
  have pm: "pointer_map ?L1 m" using assms by (simp add: pointer_map_def engine_created_def)
  have "tables ?L1 ! m = table_set (table_slot L) (tables L ! m) (LLightUserdata h) (LUserdata ?w)"
    using m by (simp add: engine_created_def nth_append)
  then have tg: "table_get (tables ?L1 ! m) (LLightUserdata h) = LUserdata ?w"
    by (simp add: table_get_set_same)
  have "ul_create_engine_object L h = Return () ?L1"
    using assms by (rule create_engine_object_result)
  moreover have "last (stack ?L1) = LUserdata ?w" by (simp add: engine_created_def)
  moreover have "block_at L ?w = None" by (simp add: block_at_def)
  moreover have "is_engine_object ?L1 ?w = (reg_fields L kEngineMetatableName \<noteq> None)"
    by (simp add: engine_created_def is_engine_object_def block_at_def)
  moreover have "engine_of ?L1 ?w = h"
    by (simp add: engine_created_def engine_of_def peek_engine_def block_at_def)
  moreover have "ul_get_engine_object ?L1 h = Return () (?L1\<lparr>stack := stack ?L1 @ [LUserdata ?w]\<rparr>)"
    using tg by (simp add: get_engine_object_table[OF pm])
  ultimately show "\<exists>L1. ul_create_engine_object L h = Return () L1 \<and>
            last (stack L1) = LUserdata ?w \<and> block_at L ?w = None \<and>
            is_engine_object L1 ?w = (reg_fields L kEngineMetatableName \<noteq> None) \<and>
            engine_of L1 ?w = h \<and>
            ul_get_engine_object L1 h = Return () (L1\<lparr>stack := stack L1 @ [LUserdata ?w]\<rparr>)"
    by blast
next
  assume "table_get (tables L ! m) (LLightUserdata q) = LNil"
  then show "ul_get_engine_object L q = Raise (NoEngineObject q) L"
    by (simp add: get_engine_object_table[OF assms])
qed

theorem registry_round_trip_witness:
  "pointer_map (sample_state 0) 0 \<and>
   table_get (tables (sample_state 0) ! 0) (LLightUserdata 9) = LNil \<and>
   (\<exists>L1. ul_create_engine_object (sample_state 0) 8 = Return () L1 \<and>
      last (stack L1) = LUserdata 2 \<and> is_engine_object L1 2 \<and>
      ul_get_engine_object L1 8 = Return () (L1\<lparr>stack := stack L1 @ [LUserdata 2]\<rparr>)) \<and>
   ul_get_engine_object (sample_state 0) 9 = Raise (NoEngineObject 9) (sample_state 0)"
proof -
  have t: "table_get (tables (sample_state 0) ! 0) (LLightUserdata 9) = LNil"
    "Suc (length (udata (sample_state 0))) = 2"
    "reg_fields (sample_state 0) kEngineMetatableName \<noteq> None"
    by (simp_all add: sample_state_def table_get_def sample_fields_def)
  note T = registry_round_trip[OF sample_state_open(4)[of 0], of 8 9]
  from T t(1) have a: "ul_get_engine_object (sample_state 0) 9 = Raise (NoEngineObject 9) (sample_state 0)"
    by blast
  from T obtain L1 where "ul_create_engine_object (sample_state 0) 8 = Return () L1"
      "last (stack L1) = LUserdata (Suc (length (udata (sample_state 0))))"
      "is_engine_object L1 (Suc (length (udata (sample_state 0)))) =
         (reg_fields (sample_state 0) kEngineMetatableName \<noteq> None)"
      "ul_get_engine_object L1 8 =
         Return () (L1\<lparr>stack := stack L1 @ [LUserdata (Suc (length (udata (sample_state 0))))]\<rparr>)"
    by blast
  with a t sample_state_open(4)[of 0] show ?thesis by (auto simp add: numeral_2_eq_2)
qed

section \<open>The query operation\<close>

text \<open>
  C6 does not hold of the code. \<^verbatim>\<open>ul_query\<close> reads the query type with
  \<^verbatim>\<open>luaL_checkinteger(L, 1)\<close>, and index 1 is the engine object, which is not an
  integer. Whatever the arguments, the function ends in an error with the state
  unchanged and \<^verbatim>\<open>uc_query\<close> is never called. On \<open>query_state\<close>, an OPEN engine with the
  query type 1 as second argument, the error is the argument error for index 1.
\<close>

theorem query_reads_engine_as_query_type:
  "(\<exists>e. ul_query L = Raise e L) \<and>
   is_open query_state 1 \<and> stack query_state = [LUserdata 1, LInteger 1] \<and>
   ul_query query_state = Raise (ArgError 1) query_state"
proof -
  have s: "stack query_state = [LUserdata 1, LInteger 1]" by (simp add: query_state_def)
  have o: "is_open query_state 1"
    using sample_state_open(2)[of 0] by (simp add: query_state_def is_open_def is_engine_object_def)
  have i: "index2value query_state 1 = Some (LUserdata 1)"
    using s by (simp add: index2value_def lua_absindex_def lua_gettop_def)
  have "ul_toengine query_state 1 = Return (engine_of query_state 1) query_state"
    using i o by (rule toengine_open)
  then have "ul_query query_state = Raise (ArgError 1) query_state"
    using i by (simp add: ul_query_def and_then_def luaL_checkinteger_def)
  with s o query_raises[of L] show ?thesis by simp
qed

section \<open>Snapshots\<close>

text \<open>
  C7 does not hold of the code. On \<open>sample_state 0\<close> (an OPEN engine with handle 7, a
  library that allocates the context 4242) \<^verbatim>\<open>ul_context_alloc\<close> calls \<^verbatim>\<open>uc_context_alloc\<close>
  and returns a new object, block 2, with the context metatable (table 3, which
  another file of the binding has registered). The block does not
  hold the handle 4242: it holds what it held when it was allocated, here 99. The
  handle went to the local variable \<^verbatim>\<open>context\<close> and is lost when the function returns.
\<close>

theorem context_alloc_leaves_snapshot_unwritten:
  "results (ul_context_alloc (sample_state 0)) = Some [LUserdata 2] \<and>
   uc_trace (state_of (ul_context_alloc (sample_state 0))) = [UcContextAlloc 7] \<and>
   uc_lib (sample_state 0) [] (UcContextAlloc 7) = \<lparr>status = UC_ERR_OK, out = 4242\<rparr> \<and>
   block_at (state_of (ul_context_alloc (sample_state 0))) 2 =
     Some \<lparr>contents = ContextMem 99, metatable = Some 3\<rparr> \<and>
   context_of (state_of (ul_context_alloc (sample_state 0))) 2 \<noteq> 4242"
proof -
  have f: "uc_status (sample_state 0) [] (UcContextAlloc 7) = UC_ERR_OK"
    "uc_lib (sample_state 0) [] (UcContextAlloc 7) = \<lparr>status = UC_ERR_OK, out = 4242\<rparr>"
    "stack (sample_state 0) = [LUserdata 1]" "udata (sample_state 0) =
       [\<lparr>contents = EngineMem \<lparr>engine = 7, hook_table_ref = 1\<rparr>, metatable = Some 2\<rparr>]"
    "uc_trace (sample_state 0) = []" "junk_ptr (sample_state 0) = 99"
    "reg_fields (sample_state 0) kContextMetatableName = Some 3"
    by (simp_all add: uc_status_def sample_state_def sample_lib_def UC_ERR_OK_def sample_fields_def
        kContextMetatableName_def kEngineMetatableName_def kEnginePointerMapName_def)
  have "ul_context_alloc (sample_state 0) = Return 1 (snapshot_allocated (sample_state 0) 7)"
    using context_alloc_result[OF called_on_index[OF sample_state_open(1)] sample_state_open(2), of 0]
      sample_state_open(5)[of 0] f(1) by simp
  then show ?thesis
    using f by (simp add: results_def state_of_def snapshot_allocated_def block_at_def context_of_def
        peek_context_def)
qed

text \<open>
  C8 does not hold of the code, by the defect of C7. On \<open>sample_state 0\<close> (an OPEN
  engine with handle 7, alone on the stack, and a library that allocates the context
  4242) \<^verbatim>\<open>ul_context_save\<close> calls \<^verbatim>\<open>ul_context_alloc\<close>, which returns a new object, block
  2, whose contents were never written, and then hands those contents, here 99, to
  \<^verbatim>\<open>uc_context_save\<close>: the library is asked to save into 99, not into the context 4242
  that it has just allocated, and the object returned wraps no snapshot. The second
  half of the claim holds: on \<open>snapshot_state\<close>, with the Snapshot Object of block 2
  (context 500) as second argument, the call returns that same object, creates and
  changes no block, and saves into 500.
\<close>

theorem context_save_saves_into_unwritten_snapshot:
  "stack (sample_state 0) = [LUserdata 1] \<and> is_open (sample_state 0) 1 \<and>
   block_at (sample_state 0) 2 = None \<and>
   uc_lib (sample_state 0) [] (UcContextAlloc 7) = \<lparr>status = UC_ERR_OK, out = 4242\<rparr> \<and>
   results (ul_context_save (sample_state 0)) = Some [LUserdata 2] \<and>
   uc_trace (state_of (ul_context_save (sample_state 0))) = [UcContextAlloc 7, UcContextSave 7 99] \<and>
   context_of (state_of (ul_context_save (sample_state 0))) 2 = 99 \<and>
   stack snapshot_state = [LUserdata 1, LUserdata 2] \<and> is_open snapshot_state 1 \<and>
   is_context_object snapshot_state 2 \<and> context_of snapshot_state 2 = 500 \<and>
   results (ul_context_save snapshot_state) = Some [LUserdata 2] \<and>
   udata (state_of (ul_context_save snapshot_state)) = udata snapshot_state \<and>
   uc_trace (state_of (ul_context_save snapshot_state)) = [UcContextSave 7 500]"
proof -
  have f: "stack (sample_state 0) = [LUserdata 1]" "junk_ptr (sample_state 0) = 99"
    "uc_status (sample_state 0) [] (UcContextAlloc 7) = UC_ERR_OK"
    "uc_status (sample_state 0) [UcContextAlloc 7] (UcContextSave 7 99) = UC_ERR_OK"
    "uc_lib (sample_state 0) [] (UcContextAlloc 7) = \<lparr>status = UC_ERR_OK, out = 4242\<rparr>"
    "reg_fields (sample_state 0) kContextMetatableName \<noteq> None"
    "uc_trace (sample_state 0) = []" "length (udata (sample_state 0)) = 1"
    by (simp_all add: uc_status_def sample_state_def sample_lib_def UC_ERR_OK_def sample_fields_def)
  have g: "is_open snapshot_state 1" "stack snapshot_state = [LUserdata 1, LUserdata 2]"
    "is_context_object snapshot_state 2" "engine_of snapshot_state 1 = 7"
    "context_of snapshot_state 2 = 500"
    "uc_status snapshot_state [] (UcContextSave 7 500) = UC_ERR_OK"
    "uc_trace snapshot_state = []"
    by (simp_all add: snapshot_state_def sample_state_def is_open_def is_engine_object_def block_at_def
        engine_of_def peek_engine_def is_context_object_def context_of_def peek_context_def
        uc_status_def sample_lib_def UC_ERR_OK_def sample_fields_def
        kContextMetatableName_def kEngineMetatableName_def kEnginePointerMapName_def)
  have o: "is_open (sample_state 0) 1" by (rule sample_state_open(2))
  have e: "engine_of (sample_state 0) 1 = 7" by (rule sample_state_open(5))
  have "ul_context_save (sample_state 0) =
      Return 1 ((snapshot_allocated (sample_state 0) 7)\<lparr>uc_trace := [UcContextAlloc 7, UcContextSave 7 99]\<rparr>)"
    using context_save_new[OF f(1) o] f e by simp
  then have a: "results (ul_context_save (sample_state 0)) = Some [LUserdata 2]"
    "uc_trace (state_of (ul_context_save (sample_state 0))) = [UcContextAlloc 7, UcContextSave 7 99]"
    "context_of (state_of (ul_context_save (sample_state 0))) 2 = 99"
    using f by (simp_all add: results_def state_of_def snapshot_allocated_def context_of_def
        peek_context_def block_at_def nth_append)
  have "ul_context_save snapshot_state =
      Return 1 (snapshot_state\<lparr>uc_trace := [UcContextSave 7 500]\<rparr>)"
    using context_save_given[OF g(2) g(1) g(3)] g by simp
  then have b: "results (ul_context_save snapshot_state) = Some [LUserdata 2]"
    "udata (state_of (ul_context_save snapshot_state)) = udata snapshot_state"
    "uc_trace (state_of (ul_context_save snapshot_state)) = [UcContextSave 7 500]"
    using g by (simp_all add: results_def state_of_def)
  have c: "block_at (sample_state 0) 2 = None" using f by (simp add: block_at_def)
  from a b c f g o show ?thesis by simp
qed

section \<open>Failure of the native close\<close>

text \<open>
  C9. When \<^verbatim>\<open>uc_close\<close> gives a status other than \<^verbatim>\<open>UC_ERR_OK\<close> during the close of an
  OPEN wrapper, the outcome of the close is the outcome of \<^verbatim>\<open>ul_crash_on_error\<close> on that
  very status, an error that carries it: the status is not swallowed. The library
  was called once with the wrapper's handle, and the call is the last one made: there
  is no retry.
\<close>

theorem native_close_failure_is_raised:
  assumes "called_on L w" "is_open L w" "has_hook_table L w n"
    and "uc_close_status L (engine_of L w) \<noteq> UC_ERR_OK"
  shows "\<exists>L'. ul_close L = Some (ul_crash_on_error L' (uc_close_status L (engine_of L w))) \<and>
               ul_close L = Some (Raise (NativeError (uc_close_status L (engine_of L w))) L') \<and>
               uc_trace L' = uc_trace L @ [UcClose (engine_of L w)]"
  using close_failure[OF assms] by (simp add: ul_crash_on_error_def)

theorem native_close_failure_is_raised_witness:
  "called_on (sample_state 3) 1 \<and> is_open (sample_state 3) 1 \<and> has_hook_table (sample_state 3) 1 1 \<and>
   uc_close_status (sample_state 3) (engine_of (sample_state 3) 1) \<noteq> UC_ERR_OK \<and>
   (\<exists>L'. ul_close (sample_state 3) = Some (Raise (NativeError 3) L') \<and> uc_trace L' = [UcClose 7])"
proof -
  have h: "uc_close_status (sample_state 3) (engine_of (sample_state 3) 1) \<noteq> UC_ERR_OK"
    using sample_state_open(5,6)[of 3] by (simp add: UC_ERR_OK_def)
  have t: "uc_trace (sample_state 3) = []" by (simp add: sample_state_def)
  show ?thesis
    using native_close_failure_is_raised[OF sample_state_open(1-3) h] h sample_state_open[of 3]
    by (auto simp add: t)
qed

text \<open>
  C10. When \<^verbatim>\<open>uc_close\<close> fails, the error leaves the wrapper half closed. In the state
  the error is raised in, every hook of the table was deleted (the Hook Manager was
  called for each entry, the table has no entry left), the reference to the table was
  given back and the wrapper's \<^verbatim>\<open>hook_table_ref\<close> is \<^verbatim>\<open>LUA_NOREF\<close>, which resolves to no
  table. The wrapper is still OPEN with the handle it had, and the Handle Registry
  is as it was: the registry field is the same and every table other than the hook
  table is unchanged, so the registry maps the handle to what it mapped it to before.
\<close>

theorem close_not_atomic_on_native_failure:
  assumes "called_on L w" "is_open L w" "has_hook_table L w n"
    and "uc_close_status L (engine_of L w) \<noteq> UC_ERR_OK"
  shows "\<exists>L'. ul_close L = Some (Raise (NativeError (uc_close_status L (engine_of L w))) L') \<and>
               hook_log L' = hook_log L @ map (HookDel w) (live_keys (tables L ! n)) \<and>
               live_keys (tables L' ! n) = [] \<and>
               registry_geti L' (hook_table_ref_of L w) = LNil \<and>
               hook_table_ref_of L' w = LUA_NOREF \<and>
               registry_geti L' (hook_table_ref_of L' w) = LNil \<and>
               is_open L' w \<and> engine_of L' w = engine_of L w \<and>
               reg_fields L' = reg_fields L \<and>
               (\<forall>m. m \<noteq> n \<longrightarrow> tables L' ! m = tables L ! m) \<and>
               (\<forall>m. pointer_map L m \<and> m \<noteq> n \<longrightarrow>
                  pointer_map L' m \<and>
                  table_get (tables L' ! m) (LLightUserdata (engine_of L w)) =
                  table_get (tables L ! m) (LLightUserdata (engine_of L w)))"
proof -
  let ?H = "hooks_released L w n"
  have eo: "is_engine_object L w" using assms(2) by (simp add: is_open_def)
  have ref: "registry_geti L (hook_table_ref_of L w) = LTable n" and n: "n < length (tables L)"
    using assms(3) by (simp_all add: has_hook_table_def)
  have run: "ul_close L = Some (Raise (NativeError (uc_close_status L (engine_of L w))) ?H)"
    using assms by (rule close_failure)
  have c0: "hook_log ?H = hook_log L @ map (HookDel w) (live_keys (tables L ! n))" by simp
  have c1: "live_keys (tables ?H ! n) = []" using n by simp
  have c2: "registry_geti ?H (hook_table_ref_of L w) = LNil"
    using ref by (rule hooks_released_ref_free)
  have c3: "hook_table_ref_of ?H w = LUA_NOREF" and c5: "engine_of ?H w = engine_of L w"
    and c4: "is_engine_object ?H w"
    using hooks_released_engine[OF eo] by simp_all
  have c9: "registry_geti ?H (hook_table_ref_of ?H w) = LNil" by (simp add: c3)
  have c6: "reg_fields ?H = reg_fields L" by simp
  have c7: "\<forall>m. m \<noteq> n \<longrightarrow> tables ?H ! m = tables L ! m" by simp
  have c8: "engine_of ?H w \<noteq> 0" using c5 assms(2) by (simp add: is_open_def)
  have c10: "\<forall>m. pointer_map L m \<and> m \<noteq> n \<longrightarrow>
                  pointer_map ?H m \<and>
                  table_get (tables ?H ! m) (LLightUserdata (engine_of L w)) =
                  table_get (tables L ! m) (LLightUserdata (engine_of L w))"
    by (simp add: pointer_map_def)
  show ?thesis
    unfolding is_open_def by (intro exI[of _ ?H] conjI; fact)
qed

theorem close_not_atomic_on_native_failure_witness:
  "called_on (sample_state 5) 1 \<and> is_open (sample_state 5) 1 \<and> has_hook_table (sample_state 5) 1 1 \<and>
   uc_close_status (sample_state 5) (engine_of (sample_state 5) 1) \<noteq> UC_ERR_OK \<and>
   (\<exists>L'. ul_close (sample_state 5) = Some (Raise (NativeError 5) L') \<and>
      hook_log L' = [HookDel 1 (LLightUserdata 11), HookDel 1 (LLightUserdata 12),
                     HookDel 1 (LLightUserdata 13)] \<and>
      live_keys (tables L' ! 1) = [] \<and>
      hook_table_ref_of L' 1 = LUA_NOREF \<and>
      is_open L' 1 \<and> engine_of L' 1 = 7 \<and>
      table_get (tables L' ! 0) (LLightUserdata 7) = LUserdata 1)"
proof -
  have h: "uc_close_status (sample_state 5) (engine_of (sample_state 5) 1) \<noteq> UC_ERR_OK"
    using sample_state_open(5,6)[of 5] by (simp add: UC_ERR_OK_def)
  have t: "hook_log (sample_state 5) = []"
    "live_keys (tables (sample_state 5) ! 1) = [LLightUserdata 11, LLightUserdata 12, LLightUserdata 13]"
    "table_get (tables (sample_state 5) ! 0) (LLightUserdata 7) = LUserdata 1"
    by (simp_all add: sample_state_def live_keys_def table_get_def)
  obtain L' where L': "ul_close (sample_state 5) =
        Some (Raise (NativeError (uc_close_status (sample_state 5) (engine_of (sample_state 5) 1))) L')"
      "hook_log L' = hook_log (sample_state 5) @ map (HookDel 1) (live_keys (tables (sample_state 5) ! 1))"
      "live_keys (tables L' ! 1) = []" "hook_table_ref_of L' 1 = LUA_NOREF" "is_open L' 1"
      "engine_of L' 1 = engine_of (sample_state 5) 1"
      "\<forall>m. m \<noteq> 1 \<longrightarrow> tables L' ! m = tables (sample_state 5) ! m"
    using close_not_atomic_on_native_failure[OF sample_state_open(1-3) h] by blast
  from L'(7) have "tables L' ! 0 = tables (sample_state 5) ! 0" by simp
  with L' t h sample_state_open[of 5] show ?thesis by simp
qed

end
